theory Spec2Isabelle
  imports Main "HOL-Library.Word" "HOL-Library.Sublist"
begin

section \<open>ROM catalog: data model\<close>

text \<open>
  The catalog of \<^verbatim>\<open>rom_catalog.cpp\<close> and \<^verbatim>\<open>rom_catalog.h\<close>. C strings are modelled by
  the bytes before the terminating NUL. \<^verbatim>\<open>uint32_t\<close> identifiers, sizes and dates are
  32-bit words. Indices into the ROM array and entry counts are natural numbers: an entry
  occupies more than 2 KiB, so a count never comes near \<open>2 ^ 31\<close> on the 32-bit target
  and the conversions between \<^verbatim>\<open>int\<close> and \<^verbatim>\<open>uint32_t\<close> on them are the identity.
\<close>

type_synonym u32 = "32 word"

definition ROM_MAX_STATIONS :: nat where
  "ROM_MAX_STATIONS = 32"

definition ROM_NAME_LEN :: nat where
  "ROM_NAME_LEN = 256"

definition ROM_PATH_LEN :: nat where
  "ROM_PATH_LEN = 1024"

definition ROM_EXT_LEN :: nat where
  "ROM_EXT_LEN = 32"

record rom_entry =
  e_name :: string
  e_filename :: string
  e_path :: string
  e_station_id :: u32
  e_size :: u32
  e_date :: u32
  e_has_preview :: bool
  e_preview_path :: string

record rom_station =
  st_id :: u32
  st_name :: string
  st_short_name :: string
  st_rom_path :: string
  st_core_path :: string
  st_extensions :: string
  st_enabled :: bool
  st_rom_count :: nat

datatype rom_sort_mode =
    ROM_SORT_NAME_ASC
  | ROM_SORT_NAME_DESC
  | ROM_SORT_STATION_ASC
  | ROM_SORT_STATION_DESC
  | ROM_SORT_DATE_ASC
  | ROM_SORT_DATE_DESC
  | ROM_SORT_SIZE_ASC
  | ROM_SORT_SIZE_DESC

text \<open>
  One record holds the global \<^verbatim>\<open>g_rom_catalog\<close> (the fields up to \<open>scan_status\<close>) and
  the file-level statics of \<^verbatim>\<open>rom_catalog.cpp\<close>. The station array has
  \<^verbatim>\<open>ROM_MAX_STATIONS\<close> slots; it is a function of the slot index, and the code only
  touches indices below \<open>ROM_MAX_STATIONS\<close>. The ROM array \<open>roms\<close> is the allocated
  block (its length is the capacity), of which the first \<open>rom_count\<close> cells are in use.
  The pointer array \<open>filtered_roms\<close> holds pointers into \<open>roms\<close>, modelled by the index
  of the cell pointed to; \<open>None\<close> is the null pointer. \<open>config_file\<close> is the station
  table last written by \<^verbatim>\<open>FileSaveConfig\<close>.
\<close>

record cat_state =
  stations :: "nat \<Rightarrow> rom_station"
  station_count :: u32
  roms :: "rom_entry list"
  rom_count :: nat
  rom_capacity :: nat
  initialized :: bool
  scanning :: bool
  scan_progress :: u32
  scan_status :: string
  iSelectedEntry :: int
  iFirstEntry :: int
  browse_station_filter :: u32
  filtered_roms :: "nat list option"
  filtered_count :: nat
  filtered_capacity :: nat
  search_filter :: string
  scan_cancel_flag :: bool
  current_sort_mode :: rom_sort_mode
  config_file :: "nat \<Rightarrow> rom_station"

subsection \<open>C library functions used by the catalog\<close>

text \<open>\<^verbatim>\<open>tolower\<close> in the C locale: only the letters A to Z change.\<close>

definition tolower :: "char \<Rightarrow> char" where
  "tolower c =
     (let n = (of_char c :: nat) in if 65 \<le> n \<and> n \<le> 90 then char_of (n + 32) else c)"

text \<open>
  \<^verbatim>\<open>strcasestr haystack needle\<close>: the first position of the haystack at which the needle
  occurs, ignoring case, as the rest of the haystack from there; \<open>None\<close> is the null
  pointer.
\<close>

fun strcasestr :: "string \<Rightarrow> string \<Rightarrow> string option" where
  "strcasestr [] needle = (if needle = [] then Some [] else None)"
| "strcasestr (c # cs) needle =
     (if prefix (map tolower needle) (map tolower (c # cs)) then Some (c # cs)
      else strcasestr cs needle)"

text \<open>
  \<^verbatim>\<open>strcasecmp\<close>: the difference of the first pair of bytes that differ after
  lowering, the end of a string counting as the byte 0.
\<close>

fun strcasecmp :: "string \<Rightarrow> string \<Rightarrow> int" where
  "strcasecmp [] [] = 0"
| "strcasecmp [] (b # bs) = - int (of_char (tolower b))"
| "strcasecmp (a # as) [] = int (of_char (tolower a))"
| "strcasecmp (a # as) (b # bs) =
     (if tolower a = tolower b then strcasecmp as bs
      else int (of_char (tolower a)) - int (of_char (tolower b)))"

text \<open>
  \<^verbatim>\<open>strrchr s c\<close>: the rest of the string from the last occurrence of \<open>c\<close> on,
  \<open>None\<close> when there is none.
\<close>

fun strrchr :: "string \<Rightarrow> char \<Rightarrow> string option" where
  "strrchr [] c = None"
| "strrchr (x # xs) c =
     (case strrchr xs c of
        Some r \<Rightarrow> Some r
      | None \<Rightarrow> if x = c then Some (x # xs) else None)"

text \<open>
  \<^verbatim>\<open>snprintf(buf, size, ...)\<close> and \<^verbatim>\<open>strncpy(buf, src, size - 1)\<close> into a zeroed
  buffer keep at most \<open>size - 1\<close> bytes of the text.
\<close>

definition snprintf :: "nat \<Rightarrow> string \<Rightarrow> string" where
  "snprintf n txt = take (n - 1) txt"

subsection \<open>The environment of the catalog\<close>

text \<open>
  What the catalog asks of the C library and of the collaborators in \<^verbatim>\<open>file_io.h\<close>:
  whether an allocation succeeds, the two storage roots, existence of files and
  directories, the names \<^verbatim>\<open>readdir\<close> yields for a directory (\<open>None\<close> when
  \<^verbatim>\<open>opendir\<close> fails), the result of \<^verbatim>\<open>stat\<close>, and the permutation \<^verbatim>\<open>qsort\<close>
  computes for a comparison function.
\<close>

record file_stat =
  S_ISDIR :: bool
  S_ISREG :: bool
  st_size :: nat
  st_mtime :: nat

record cat_env =
  malloc_ok :: "nat \<Rightarrow> bool"
  realloc_ok :: "nat \<Rightarrow> bool"
  games_dir :: string
  root_dir :: string
  FileExists :: "string \<Rightarrow> bool"
  PathIsDir :: "string \<Rightarrow> bool"
  opendir :: "string \<Rightarrow> string list option"
  stat :: "string \<Rightarrow> file_stat option"
  qsort :: "(nat \<Rightarrow> nat \<Rightarrow> int) \<Rightarrow> nat list \<Rightarrow> nat list"

subsection \<open>Browse view\<close>

text \<open>
  \<^verbatim>\<open>rebuild_filtered_list\<close>. The allocation of the pointer array can fail. The
  \<^verbatim>\<open>for\<close> loop over the ROM array is \<open>rebuild_loop\<close>, from index \<open>i\<close> on.
  The station filter is an \<^verbatim>\<open>int\<close>: it is read as a signed value, and the cast
  \<^verbatim>\<open>(int)rom->station_id\<close> keeps the bit pattern.
\<close>

function rebuild_loop :: "nat \<Rightarrow> cat_state \<Rightarrow> cat_state" where
  "rebuild_loop i s =
     (if i < rom_count s then
        (let rom = roms s ! i in
         if 0 \<le> sint (browse_station_filter s) \<and> e_station_id rom \<noteq> browse_station_filter s
         then rebuild_loop (i + 1) s
         else if search_filter s \<noteq> [] \<and> strcasestr (e_name rom) (search_filter s) = None
         then rebuild_loop (i + 1) s
         else rebuild_loop (i + 1)
                (s\<lparr>filtered_roms := map_option (\<lambda>v. v @ [i]) (filtered_roms s),
                   filtered_count := filtered_count s + 1\<rparr>))
      else s)"
  by pat_completeness auto
termination
  by (relation "measure (\<lambda>(i, s). rom_count s - i)") auto

declare rebuild_loop.simps [simp del]

definition rebuild_filtered_list :: "cat_env \<Rightarrow> cat_state \<Rightarrow> cat_state" where
  "rebuild_filtered_list env s =
     (let s1 = s\<lparr>filtered_roms := None, filtered_count := 0,
                  filtered_capacity := (if rom_count s > 0 then rom_count s else 64)\<rparr>
      in if \<not> malloc_ok env (filtered_capacity s1) then s1
         else rebuild_loop 0 (s1\<lparr>filtered_roms := Some []\<rparr>))"

definition rom_browse_init :: "cat_env \<Rightarrow> u32 \<Rightarrow> cat_state \<Rightarrow> cat_state" where
  "rom_browse_init env filter_station_id s =
     rebuild_filtered_list env
       (s\<lparr>browse_station_filter := filter_station_id, iFirstEntry := 0,
          iSelectedEntry := 0, search_filter := []\<rparr>)"

definition rom_browse_available :: "cat_state \<Rightarrow> nat" where
  "rom_browse_available s = filtered_count s"

definition rom_browse_get_selected_index :: "cat_state \<Rightarrow> int" where
  "rom_browse_get_selected_index s = iSelectedEntry s"

definition rom_browse_get_first_index :: "cat_state \<Rightarrow> int" where
  "rom_browse_get_first_index s = iFirstEntry s"

text \<open>
  \<^verbatim>\<open>rom_browse_scan\<close>. The scan modes are constants of \<^verbatim>\<open>file_io.h\<close>; the number of
  rows \<^verbatim>\<open>OsdGetSize()\<close> is the parameter \<open>osd_size\<close>.
\<close>

datatype scan_mode =
    SCANF_INIT
  | SCANF_NEXT
  | SCANF_PREV
  | SCANF_NEXT_PAGE
  | SCANF_PREV_PAGE
  | SCANF_END

definition rom_browse_scan :: "int \<Rightarrow> scan_mode \<Rightarrow> cat_state \<Rightarrow> cat_state" where
  "rom_browse_scan osd_size mode s =
     (let cnt = int (filtered_count s) in
      if mode = SCANF_INIT then s\<lparr>iFirstEntry := 0, iSelectedEntry := 0\<rparr>
      else if filtered_count s = 0 then s
      else if mode = SCANF_END \<or> (mode = SCANF_PREV \<and> iSelectedEntry s \<le> 0) then
        (let sel = cnt - 1; first = sel - osd_size + 1
         in s\<lparr>iSelectedEntry := sel, iFirstEntry := (if first < 0 then 0 else first)\<rparr>)
      else if mode = SCANF_NEXT then
        (if iSelectedEntry s + 1 < cnt then
           (let sel = iSelectedEntry s + 1
            in s\<lparr>iSelectedEntry := sel,
                 iFirstEntry := (if sel > iFirstEntry s + osd_size - 1 then sel - osd_size + 1
                                 else iFirstEntry s)\<rparr>)
         else s\<lparr>iFirstEntry := 0, iSelectedEntry := 0\<rparr>)
      else if mode = SCANF_PREV then
        (if iSelectedEntry s > 0 then
           (let sel = iSelectedEntry s - 1
            in s\<lparr>iSelectedEntry := sel,
                 iFirstEntry := (if sel < iFirstEntry s then sel else iFirstEntry s)\<rparr>)
         else s)
      else if mode = SCANF_NEXT_PAGE then
        (if iSelectedEntry s < iFirstEntry s + osd_size - 1 then
           (let sel = iFirstEntry s + osd_size - 1
            in s\<lparr>iSelectedEntry := (if sel \<ge> cnt then cnt - 1 else sel)\<rparr>)
         else
           (let sel = iSelectedEntry s + osd_size; first = iFirstEntry s + osd_size
            in if sel \<ge> cnt then
                 (let sel1 = cnt - 1; first1 = sel1 - osd_size + 1
                  in s\<lparr>iSelectedEntry := sel1,
                       iFirstEntry := (if first1 < 0 then 0 else first1)\<rparr>)
               else if first + osd_size > cnt
               then s\<lparr>iSelectedEntry := sel, iFirstEntry := cnt - osd_size\<rparr>
               else s\<lparr>iSelectedEntry := sel, iFirstEntry := first\<rparr>))
      else if mode = SCANF_PREV_PAGE then
        (if iSelectedEntry s \<noteq> iFirstEntry s then s\<lparr>iSelectedEntry := iFirstEntry s\<rparr>
         else
           (let first = iFirstEntry s - osd_size; first1 = (if first < 0 then 0 else first)
            in s\<lparr>iFirstEntry := first1, iSelectedEntry := first1\<rparr>))
      else s)"

subsection \<open>Sorting\<close>

text \<open>
  \<^verbatim>\<open>compare_roms\<close>: the differences of \<^verbatim>\<open>uint32_t\<close> fields are taken modulo
  \<open>2 ^ 32\<close> and returned as \<^verbatim>\<open>int\<close>.
\<close>

fun compare_roms :: "rom_sort_mode \<Rightarrow> rom_entry \<Rightarrow> rom_entry \<Rightarrow> int" where
  "compare_roms ROM_SORT_NAME_ASC ra rb = strcasecmp (e_name ra) (e_name rb)"
| "compare_roms ROM_SORT_NAME_DESC ra rb = strcasecmp (e_name rb) (e_name ra)"
| "compare_roms ROM_SORT_STATION_ASC ra rb =
     (if e_station_id ra \<noteq> e_station_id rb then sint (e_station_id ra - e_station_id rb)
      else strcasecmp (e_name ra) (e_name rb))"
| "compare_roms ROM_SORT_STATION_DESC ra rb =
     (if e_station_id ra \<noteq> e_station_id rb then sint (e_station_id rb - e_station_id ra)
      else strcasecmp (e_name ra) (e_name rb))"
| "compare_roms ROM_SORT_DATE_ASC ra rb = sint (e_date ra - e_date rb)"
| "compare_roms ROM_SORT_DATE_DESC ra rb = sint (e_date rb - e_date ra)"
| "compare_roms ROM_SORT_SIZE_ASC ra rb = sint (e_size ra - e_size rb)"
| "compare_roms ROM_SORT_SIZE_DESC ra rb = sint (e_size rb - e_size ra)"

text \<open>
  \<^verbatim>\<open>rom_sort\<close> hands the first \<open>filtered_count\<close> pointers of the view to
  \<^verbatim>\<open>qsort\<close>, which compares the entries they point to.
\<close>

definition rom_sort :: "cat_env \<Rightarrow> rom_sort_mode \<Rightarrow> cat_state \<Rightarrow> cat_state" where
  "rom_sort env mode s =
     (let s1 = s\<lparr>current_sort_mode := mode\<rparr> in
      case filtered_roms s1 of
        None \<Rightarrow> s1
      | Some v \<Rightarrow>
          if filtered_count s1 > 0
          then s1\<lparr>filtered_roms :=
                 Some (qsort env (\<lambda>a b. compare_roms (current_sort_mode s1) (roms s1 ! a) (roms s1 ! b))
                         (take (filtered_count s1) v)
                       @ drop (filtered_count s1) v)\<rparr>
          else s1)"

subsection \<open>Search filter\<close>

definition rom_filter_set :: "cat_env \<Rightarrow> string \<Rightarrow> cat_state \<Rightarrow> cat_state" where
  "rom_filter_set env search_text s =
     (let s1 = s\<lparr>search_filter := take 255 search_text\<rparr>;
          s2 = rebuild_filtered_list env s1
      in s2\<lparr>iFirstEntry := 0, iSelectedEntry := 0\<rparr>)"

definition rom_filter_clear :: "cat_env \<Rightarrow> cat_state \<Rightarrow> cat_state" where
  "rom_filter_clear env s = rebuild_filtered_list env (s\<lparr>search_filter := []\<rparr>)"

definition rom_filter_active :: "cat_state \<Rightarrow> bool" where
  "rom_filter_active s = (search_filter s \<noteq> [])"

subsection \<open>Station registry\<close>

definition rom_catalog_save :: "cat_state \<Rightarrow> cat_state" where
  "rom_catalog_save s = s\<lparr>config_file := stations s\<rparr>"

definition zero_station :: rom_station where
  "zero_station =
     \<lparr>st_id = 0, st_name = [], st_short_name = [], st_rom_path = [], st_core_path = [],
      st_extensions = [], st_enabled = False, st_rom_count = 0\<rparr>"

text \<open>The search for the first slot that is not enabled, from slot \<open>i\<close> on.\<close>

function find_free_slot :: "nat \<Rightarrow> cat_state \<Rightarrow> nat option" where
  "find_free_slot i s =
     (if i < ROM_MAX_STATIONS then
        (if \<not> st_enabled (stations s i) then Some i else find_free_slot (i + 1) s)
      else None)"
  by pat_completeness auto
termination
  by (relation "measure (\<lambda>(i, s). ROM_MAX_STATIONS - i)") auto

declare find_free_slot.simps [simp del]

definition rom_station_add ::
  "string \<Rightarrow> string \<Rightarrow> string \<Rightarrow> string \<Rightarrow> string \<Rightarrow> cat_state \<Rightarrow> int \<times> cat_state" where
  "rom_station_add name short_name rom_path core_path extensions s =
     (case find_free_slot 0 s of
        None \<Rightarrow> (- 1, s)
      | Some slot \<Rightarrow>
          (let station = zero_station
                 \<lparr>st_id := word_of_nat slot,
                  st_name := take (ROM_NAME_LEN - 1) name,
                  st_short_name := take 31 short_name,
                  st_rom_path := take (ROM_PATH_LEN - 1) rom_path,
                  st_core_path := take (ROM_PATH_LEN - 1) core_path,
                  st_extensions := take (ROM_EXT_LEN - 1) extensions,
                  st_enabled := True\<rparr>;
               s1 = s\<lparr>stations := (stations s)(slot := station),
                      station_count := station_count s + 1\<rparr>
           in (int slot, rom_catalog_save s1)))"

text \<open>
  The compaction loop of \<^verbatim>\<open>rom_station_remove\<close> and \<^verbatim>\<open>rom_scan_station\<close>: a forward
  pass over the first \<open>n\<close> cells with a write cursor. It yields the final write cursor and
  the array.
\<close>

function purge_loop ::
  "u32 \<Rightarrow> nat \<Rightarrow> nat \<Rightarrow> nat \<Rightarrow> rom_entry list \<Rightarrow> nat \<times> rom_entry list" where
  "purge_loop station_id n i write_idx rs =
     (if i < n then
        (if e_station_id (rs ! i) \<noteq> station_id
         then purge_loop station_id n (i + 1) (write_idx + 1)
                (if write_idx \<noteq> i then rs[write_idx := rs ! i] else rs)
         else purge_loop station_id n (i + 1) write_idx rs)
      else (write_idx, rs))"
  by pat_completeness auto
termination
  by (relation "measure (\<lambda>(station_id, n, i, write_idx, rs). n - i)") auto

declare purge_loop.simps [simp del]

definition rom_station_remove :: "cat_env \<Rightarrow> u32 \<Rightarrow> cat_state \<Rightarrow> int \<times> cat_state" where
  "rom_station_remove env station_id s =
     (if unat station_id \<ge> ROM_MAX_STATIONS then (- 1, s)
      else if \<not> st_enabled (stations s (unat station_id)) then (- 1, s)
      else
        (let (write_idx, rs) = purge_loop station_id (rom_count s) 0 0 (roms s);
             s1 = s\<lparr>roms := rs, rom_count := write_idx\<rparr>;
             s2 = s1\<lparr>stations := (stations s1)
                        (unat station_id := (stations s1 (unat station_id))\<lparr>st_enabled := False\<rparr>),
                    station_count := station_count s1 - 1\<rparr>;
             s3 = rom_catalog_save s2;
             s4 = rebuild_filtered_list env s3
         in (0, s4)))"

definition rom_station_update :: "u32 \<Rightarrow> rom_station \<Rightarrow> cat_state \<Rightarrow> int \<times> cat_state" where
  "rom_station_update station_id station s =
     (if unat station_id \<ge> ROM_MAX_STATIONS then (- 1, s)
      else (0, rom_catalog_save (s\<lparr>stations := (stations s)(unat station_id := station)\<rparr>)))"

text \<open>\<^verbatim>\<open>rom_station_get\<close> returns a pointer to the slot (its index) or the null pointer.\<close>

definition rom_station_get :: "u32 \<Rightarrow> cat_state \<Rightarrow> nat option" where
  "rom_station_get station_id s =
     (if unat station_id \<ge> ROM_MAX_STATIONS then None
      else if \<not> st_enabled (stations s (unat station_id)) then None
      else Some (unat station_id))"

definition rom_station_count :: "cat_state \<Rightarrow> u32" where
  "rom_station_count s = station_count s"

subsection \<open>Scanner\<close>

text \<open>
  The token loop of \<^verbatim>\<open>match_extension\<close>: \<open>p\<close> is the rest of the allow-list that
  is still to be read, \<open>ext_lower\<close> the lowered extension of the file.
\<close>

function match_tokens :: "string \<Rightarrow> string \<Rightarrow> bool" where
  "match_tokens ext_lower p =
     (if p = [] then False
      else
        (let p1 = dropWhile (\<lambda>c. c = CHR '' '') p in
         if p1 = [] then False
         else
           (let start = takeWhile (\<lambda>c. c \<noteq> CHR '' '') p1;
                p2 = dropWhile (\<lambda>c. c \<noteq> CHR '' '') p1;
                token_len = length start
            in if token_len > 0 \<and> token_len \<le> 8 \<and> ext_lower = map tolower start then True
               else match_tokens ext_lower p2)))"
  by pat_completeness auto
termination
proof (relation "measure (\<lambda>(ext_lower, p). length p)", goal_cases)
  case 1
  show ?case by simp
next
  case (2 ext_lower p p1 start p2 token_len)
  from \<open>p1 \<noteq> []\<close> obtain x xs where p1: "p1 = x # xs"
    by (cases p1) auto
  have "x \<noteq> CHR '' ''"
    using p1 2(2) hd_dropWhile [of "\<lambda>c. c = CHR '' ''" p] by auto
  then have "p2 = dropWhile (\<lambda>c. c \<noteq> CHR '' '') xs"
    using 2(5) p1 by simp
  then have "length p2 \<le> length xs"
    by (simp add: length_dropWhile_le)
  moreover have "length p1 \<le> length p"
    using 2(2) by (simp add: length_dropWhile_le)
  ultimately show ?case using p1 by simp
qed

declare match_tokens.simps [simp del]

definition match_extension :: "string \<Rightarrow> string \<Rightarrow> bool" where
  "match_extension filename extensions =
     (if extensions = [] then True
      else case strrchr filename (CHR ''.'') of
        None \<Rightarrow> False
      | Some dot \<Rightarrow>
          (let ext = tl dot;
               ext_len = (if length ext > 8 then 8 else length ext);
               ext_lower = map tolower (take ext_len ext)
           in match_tokens ext_lower extensions))"

definition extract_display_name :: "string \<Rightarrow> nat \<Rightarrow> string" where
  "extract_display_name filename max_len =
     (let len0 = (case strrchr filename (CHR ''.'') of
                    Some dot \<Rightarrow> length filename - length dot
                  | None \<Rightarrow> length filename);
          len = (if len0 \<ge> max_len then max_len - 1 else len0)
      in map (\<lambda>c. if c = CHR ''_'' then CHR '' '' else c) (take len filename))"

definition zero_entry :: rom_entry where
  "zero_entry =
     \<lparr>e_name = [], e_filename = [], e_path = [], e_station_id = 0, e_size = 0, e_date = 0,
      e_has_preview = False, e_preview_path = []\<rparr>"

text \<open>
  \<^verbatim>\<open>add_rom_entry\<close>; \<open>station\<close> is the pointer to the station's slot. Growing the
  array appends cells of unspecified content, written here as zeroed cells; the cell at
  \<open>rom_count\<close> is zeroed before it is filled. The catalog is initialised with capacity
  1024 before any scan, so the cell exists after the growth.
\<close>

definition add_rom_entry ::
  "cat_env \<Rightarrow> nat \<Rightarrow> string \<Rightarrow> string \<Rightarrow> u32 \<Rightarrow> u32 \<Rightarrow> cat_state \<Rightarrow> int \<times> cat_state" where
  "add_rom_entry env station path filename size_arg date s =
     (let grow = (rom_count s \<ge> rom_capacity s);
          new_capacity = rom_capacity s * 2
      in if grow \<and> \<not> realloc_ok env new_capacity then (- 1, s)
         else
           (let s1 = (if grow
                      then s\<lparr>roms := roms s @ replicate (new_capacity - length (roms s)) zero_entry,
                             rom_capacity := new_capacity\<rparr>
                      else s);
                rom0 = zero_entry
                  \<lparr>e_name := extract_display_name filename ROM_NAME_LEN,
                   e_filename := take (ROM_NAME_LEN - 1) filename,
                   e_path := take (ROM_PATH_LEN - 1) path,
                   e_station_id := st_id (stations s1 station),
                   e_size := size_arg,
                   e_date := date\<rparr>;
                preview_path1 = snprintf ROM_PATH_LEN
                   (games_dir env @ ''/previews/'' @ e_name rom0 @ ''.png'');
                preview_path2 = snprintf ROM_PATH_LEN
                   (games_dir env @ ''/'' @ st_short_name (stations s1 station)
                      @ ''/previews/'' @ e_name rom0 @ ''.png'');
                rom = (if FileExists env preview_path1
                       then rom0\<lparr>e_has_preview := True,
                                 e_preview_path := take (ROM_PATH_LEN - 1) preview_path1\<rparr>
                       else if FileExists env preview_path2
                       then rom0\<lparr>e_has_preview := True,
                                 e_preview_path := take (ROM_PATH_LEN - 1) preview_path2\<rparr>
                       else rom0);
                s2 = s1\<lparr>roms := (roms s1)[rom_count s1 := rom],
                        rom_count := rom_count s1 + 1\<rparr>;
                s3 = s2\<lparr>stations := (stations s2)
                          (station := (stations s2 station)
                             \<lparr>st_rom_count := st_rom_count (stations s2 station) + 1\<rparr>)\<rparr>
            in (0, s3)))"

text \<open>
  \<^verbatim>\<open>scan_directory_recursive\<close> and its \<^verbatim>\<open>readdir\<close> loop (\<open>scan_readdir\<close>, over the
  names still to be read). Sizes and dates are stored as \<^verbatim>\<open>uint32_t\<close>.
\<close>

function scan_directory_recursive ::
    "cat_env \<Rightarrow> nat \<Rightarrow> string \<Rightarrow> nat \<Rightarrow> cat_state \<Rightarrow> cat_state"
  and scan_readdir ::
    "cat_env \<Rightarrow> nat \<Rightarrow> string \<Rightarrow> nat \<Rightarrow> string list \<Rightarrow> cat_state \<Rightarrow> cat_state" where
  "scan_directory_recursive env station dir_path depth s =
     (if depth > 5 \<or> scan_cancel_flag s then s
      else case opendir env dir_path of
        None \<Rightarrow> s
      | Some names \<Rightarrow> scan_readdir env station dir_path depth names s)"
| "scan_readdir env station dir_path depth [] s = s"
| "scan_readdir env station dir_path depth (d_name # rest) s =
     (if scan_cancel_flag s then s
      else if take 1 d_name = ''.'' then scan_readdir env station dir_path depth rest s
      else
        (let full_path = snprintf ROM_PATH_LEN (dir_path @ ''/'' @ d_name) in
         case stat env full_path of
           None \<Rightarrow> scan_readdir env station dir_path depth rest s
         | Some st \<Rightarrow>
             if S_ISDIR st
             then scan_readdir env station dir_path depth rest
                    (scan_directory_recursive env station full_path (depth + 1) s)
             else if S_ISREG st
             then (if match_extension d_name (st_extensions (stations s station))
                   then scan_readdir env station dir_path depth rest
                          (snd (add_rom_entry env station full_path d_name
                                  (word_of_nat (st_size st)) (word_of_nat (st_mtime st)) s))
                   else scan_readdir env station dir_path depth rest s)
             else scan_readdir env station dir_path depth rest s))"
  by pat_completeness auto
termination
  by (relation "inv_image (less_than <*lex*> less_than)
        (\<lambda>x. case x of
           Inl (env, station, dir_path, depth, s) \<Rightarrow>
             (if depth > 5 then 0 else 2 * (6 - depth) + 2, 0)
         | Inr (env, station, dir_path, depth, names, s) \<Rightarrow>
             (if depth > 5 then 1 else 2 * (6 - depth) + 1, length names))")
     auto

declare scan_directory_recursive.simps [simp del] scan_readdir.simps [simp del]

text \<open>The loop of \<^verbatim>\<open>rom_scan_station\<close> over the storage locations.\<close>

fun scan_storage_dirs :: "cat_env \<Rightarrow> nat \<Rightarrow> string list \<Rightarrow> cat_state \<Rightarrow> cat_state" where
  "scan_storage_dirs env station [] s = s"
| "scan_storage_dirs env station (d # ds) s =
     (if scan_cancel_flag s then s
      else
        (let full_path = snprintf ROM_PATH_LEN (d @ ''/'' @ st_rom_path (stations s station)) in
         scan_storage_dirs env station ds
           (if PathIsDir env full_path then scan_directory_recursive env station full_path 0 s
            else s)))"

definition rom_scan_station :: "cat_env \<Rightarrow> u32 \<Rightarrow> cat_state \<Rightarrow> int \<times> cat_state" where
  "rom_scan_station env station_id s =
     (case rom_station_get station_id s of
        None \<Rightarrow> (- 1, s)
      | Some station \<Rightarrow>
          (let s1 = s\<lparr>scan_cancel_flag := False, scanning := True,
                      scan_status := snprintf 256
                        (''Scanning '' @ st_short_name (stations s station) @ ''...'')\<rparr>;
               (write_idx, rs) = purge_loop station_id (rom_count s1) 0 0 (roms s1);
               s2 = s1\<lparr>roms := rs, rom_count := write_idx\<rparr>;
               s3 = s2\<lparr>stations := (stations s2)
                         (station := (stations s2 station)\<lparr>st_rom_count := 0\<rparr>)\<rparr>;
               s4 = scan_storage_dirs env station [games_dir env, root_dir env] s3;
               s5 = rebuild_filtered_list env (s4\<lparr>scanning := False\<rparr>)
           in (int (st_rom_count (stations s5 station)), s5)))"

text \<open>
  \<^verbatim>\<open>rom_scan_all\<close>. The loop runs over the slots from \<open>i\<close> on; it carries the running
  total (\<open>total_acc\<close>) and the values written to \<open>scan_progress\<close> so far, one before each station
  scanned. The progress is an unsigned division by \<open>station_count\<close>; dividing by zero
  has no defined result in C and is the outcome \<open>None\<close>.
\<close>

function scan_all_loop ::
  "cat_env \<Rightarrow> nat \<Rightarrow> int \<Rightarrow> u32 list \<Rightarrow> cat_state \<Rightarrow> (int \<times> u32 list \<times> cat_state) option" where
  "scan_all_loop env i total_acc progress s =
     (if i < ROM_MAX_STATIONS \<and> \<not> scan_cancel_flag s then
        (if st_enabled (stations s i) then
           (if station_count s = 0 then None
            else
              (let s1 = s\<lparr>scan_progress := (word_of_nat i * 100) div station_count s\<rparr>;
                   (n, s2) = rom_scan_station env (word_of_nat i) s1
               in scan_all_loop env (i + 1) (total_acc + n) (progress @ [scan_progress s1]) s2))
         else scan_all_loop env (i + 1) total_acc progress s)
      else Some (total_acc, progress, s))"
  by pat_completeness auto
termination
  by (relation "measure (\<lambda>(env, i, total_acc, progress, s). ROM_MAX_STATIONS - i)") auto

declare scan_all_loop.simps [simp del]

definition rom_scan_all :: "cat_env \<Rightarrow> cat_state \<Rightarrow> (int \<times> u32 list \<times> cat_state) option" where
  "rom_scan_all env s =
     (case scan_all_loop env 0 0 [] (s\<lparr>scan_cancel_flag := False, scanning := True\<rparr>) of
        None \<Rightarrow> None
      | Some (total_acc, progress, s1) \<Rightarrow>
          Some (total_acc, progress,
                s1\<lparr>scanning := False, scan_progress := 100, scan_status := ''Scan complete''\<rparr>))"

definition rom_scan_progress :: "cat_state \<Rightarrow> u32" where
  "rom_scan_progress s = scan_progress s"

section \<open>Preview images: data model\<close>

text \<open>
  The preview system of \<^verbatim>\<open>rom_preview.cpp\<close>. A file on the card either decodes to an
  image of some width and height or does not decode. An \<open>image\<close> is what
  \<^verbatim>\<open>imlib_load_image_with_error_return\<close> hands back for a file that decodes.
\<close>

datatype preview_status =
    PREVIEW_STATUS_NONE
  | PREVIEW_STATUS_LOADING
  | PREVIEW_STATUS_READY
  | PREVIEW_STATUS_NOT_FOUND
  | PREVIEW_STATUS_ERROR
  | PREVIEW_STATUS_NO_INTERNET

datatype file_data = ImageFile int int | OtherFile

datatype image = Image int int

record rom_preview_data =
  status :: preview_status
  image_data :: "image option"
  width :: int
  height :: int
  rom_name :: string
  station_id :: u32

text \<open>
  The state of the preview system: \<^verbatim>\<open>g_current_preview\<close>, the statics of the
  asynchronous and batch fetch, the files on the card by path, and the URLs that
  \<^verbatim>\<open>download_file\<close> has been called with, oldest first. \<open>fetch_thread\<close> is the
  background thread that has been created and not yet run, with its argument.

  The background thread is modelled at the granularity of its whole body: the body runs in
  one step, at the latest when the thread is joined.
\<close>

record pv_state =
  g_current_preview :: rom_preview_data
  fetch_thread :: "rom_entry option option"
  fetch_in_progress :: bool
  fetch_cancel :: bool
  batch_cancel :: bool
  disk :: "string \<Rightarrow> file_data option"
  downloads :: "string list"

text \<open>
  The environment: the result of \<^verbatim>\<open>getaddrinfo\<close> for a host and a service, what
  running \<^verbatim>\<open>wget\<close> on a URL and a save path gives (its exit status and the file it
  leaves at the save path, if any), whether \<^verbatim>\<open>pthread_create\<close> succeeds, and the
  full path of the games directory.
\<close>

record pv_env =
  getaddrinfo :: "string \<Rightarrow> string \<Rightarrow> int"
  wget :: "string \<Rightarrow> string \<Rightarrow> int \<times> file_data option"
  pthread_create_ok :: bool
  getFullPath_GAMES_DIR :: string

definition PREVIEW_CACHE_DIR :: string where
  "PREVIEW_CACHE_DIR = ''previews''"

definition zero_preview :: rom_preview_data where
  "zero_preview =
     \<lparr>status = PREVIEW_STATUS_NONE, image_data = None, width = 0, height = 0,
      rom_name = [], station_id = 0\<rparr>"

text \<open>The state at program start: the statics are zero-initialised.\<close>

definition pv_startup :: "(string \<Rightarrow> file_data option) \<Rightarrow> pv_state" where
  "pv_startup d =
     \<lparr>g_current_preview = zero_preview, fetch_thread = None, fetch_in_progress = False,
      fetch_cancel = False, batch_cancel = False, disk = d, downloads = []\<rparr>"

subsection \<open>Local loading\<close>

definition rom_preview_check_internet :: "pv_env \<Rightarrow> int" where
  "rom_preview_check_internet env =
     (let result = getaddrinfo env ''github.com'' ''443'' in if result = 0 then 1 else 0)"

definition rom_preview_clear :: "pv_state \<Rightarrow> pv_state" where
  "rom_preview_clear s = s\<lparr>g_current_preview := zero_preview\<rparr>"

definition rom_preview_get_status :: "pv_state \<Rightarrow> preview_status" where
  "rom_preview_get_status s = status (g_current_preview s)"

definition imlib_load_image :: "pv_state \<Rightarrow> string \<Rightarrow> image option" where
  "imlib_load_image s path =
     (case disk s path of Some (ImageFile w h) \<Rightarrow> Some (Image w h) | _ \<Rightarrow> None)"

definition pv_FileExists :: "pv_state \<Rightarrow> string \<Rightarrow> bool" where
  "pv_FileExists s path = (disk s path \<noteq> None)"

text \<open>The block that records a loaded image, the same at both places of the source.\<close>

definition preview_set_ready :: "image \<Rightarrow> rom_entry \<Rightarrow> pv_state \<Rightarrow> pv_state" where
  "preview_set_ready img rom s =
     (case img of Image w h \<Rightarrow>
        s\<lparr>g_current_preview := (g_current_preview s)
             \<lparr>image_data := Some img, width := w, height := h,
              status := PREVIEW_STATUS_READY,
              rom_name := take 255 (e_name rom),
              station_id := e_station_id rom\<rparr>\<rparr>)"

text \<open>The loop over the standard locations, from the paths still to be tried.\<close>

fun try_preview_dirs :: "string list \<Rightarrow> rom_entry \<Rightarrow> pv_state \<Rightarrow> int \<times> pv_state" where
  "try_preview_dirs [] rom s =
     (- 1, s\<lparr>g_current_preview := (g_current_preview s)\<lparr>status := PREVIEW_STATUS_NOT_FOUND\<rparr>\<rparr>)"
| "try_preview_dirs (preview_path # rest) rom s =
     (if pv_FileExists s preview_path then
        (case imlib_load_image s preview_path of
           Some img \<Rightarrow> (0, preview_set_ready img rom s)
         | None \<Rightarrow> try_preview_dirs rest rom s)
      else try_preview_dirs rest rom s)"

definition rom_preview_load_local ::
  "pv_env \<Rightarrow> cat_state \<Rightarrow> rom_entry option \<Rightarrow> pv_state \<Rightarrow> int \<times> pv_state" where
  "rom_preview_load_local env cat rom_ptr s =
     (case rom_ptr of
        None \<Rightarrow> (- 1, s)
      | Some rom \<Rightarrow>
          (let s1 = rom_preview_clear s;
               first = (if e_has_preview rom \<and> e_preview_path rom \<noteq> []
                        then imlib_load_image s1 (e_preview_path rom) else None)
           in case first of
                Some img \<Rightarrow> (0, preview_set_ready img rom s1)
              | None \<Rightarrow>
                  (let station_name = (case rom_station_get (e_station_id rom) cat of
                                         Some station \<Rightarrow> st_short_name (stations cat station)
                                       | None \<Rightarrow> ''unknown'');
                       base = getFullPath_GAMES_DIR env @ ''/'' @ PREVIEW_CACHE_DIR @ ''/''
                                @ station_name;
                       preview_dirs =
                         [snprintf 1024 (base @ ''/'' @ e_name rom @ ''.png''),
                          snprintf 1024 (base @ ''/'' @ e_name rom @ ''.jpg''),
                          snprintf 1024 (base @ ''.png'')]
                   in try_preview_dirs preview_dirs rom s1)))"

subsection \<open>Online fetching\<close>

definition hex_digit :: "nat \<Rightarrow> char" where
  "hex_digit n = ''0123456789ABCDEF'' ! n"

definition url_unreserved :: "char \<Rightarrow> bool" where
  "url_unreserved c =
     (let n = (of_char c :: nat) in
      (65 \<le> n \<and> n \<le> 90) \<or> (97 \<le> n \<and> n \<le> 122) \<or> (48 \<le> n \<and> n \<le> 57)
      \<or> c = CHR ''-'' \<or> c = CHR ''_'' \<or> c = CHR ''.'' \<or> c = CHR ''~'')"

text \<open>\<^verbatim>\<open>url_encode\<close>: \<open>i\<close> is the number of bytes written so far.\<close>

fun url_encode_loop :: "string \<Rightarrow> nat \<Rightarrow> nat \<Rightarrow> string" where
  "url_encode_loop [] i dst_size = []"
| "url_encode_loop (c # src) i dst_size =
     (if i < dst_size - 4 then
        (if url_unreserved c then c # url_encode_loop src (i + 1) dst_size
         else if c = CHR '' '' then CHR ''+'' # url_encode_loop src (i + 1) dst_size
         else CHR ''%'' # hex_digit ((of_char c div 16) mod 16) # hex_digit (of_char c mod 16)
                # url_encode_loop src (i + 3) dst_size)
      else [])"

definition url_encode :: "string \<Rightarrow> nat \<Rightarrow> string" where
  "url_encode src dst_size = url_encode_loop src 0 dst_size"

definition libretro_mappings :: "(string \<times> string) list" where
  "libretro_mappings =
     [(''NES'', ''Nintendo_-_Nintendo_Entertainment_System''),
      (''SNES'', ''Nintendo_-_Super_Nintendo_Entertainment_System''),
      (''Genesis'', ''Sega_-_Mega_Drive_-_Genesis''),
      (''SMS'', ''Sega_-_Master_System_-_Mark_III''),
      (''GB'', ''Nintendo_-_Game_Boy''),
      (''GBC'', ''Nintendo_-_Game_Boy_Color''),
      (''GBA'', ''Nintendo_-_Game_Boy_Advance''),
      (''N64'', ''Nintendo_-_Nintendo_64''),
      (''A2600'', ''Atari_-_2600''),
      (''A7800'', ''Atari_-_7800''),
      (''A5200'', ''Atari_-_5200''),
      (''TG16'', ''NEC_-_PC_Engine_-_TurboGrafx_16''),
      (''NeoGeo'', ''SNK_-_Neo_Geo''),
      (''Arcade'', ''MAME''),
      (''PS1'', ''Sony_-_PlayStation''),
      (''PSX'', ''Sony_-_PlayStation''),
      (''SegaCD'', ''Sega_-_Mega-CD_-_Sega_CD''),
      (''Saturn'', ''Sega_-_Saturn''),
      (''S32X'', ''Sega_-_32X''),
      (''C64'', ''Commodore_-_64''),
      (''Amiga'', ''Commodore_-_Amiga''),
      (''AtariST'', ''Atari_-_ST''),
      (''MSX'', ''Microsoft_-_MSX''),
      (''Spectrum'', ''Sinclair_-_ZX_Spectrum''),
      (''CPC'', ''Amstrad_-_CPC''),
      (''Coleco'', ''Coleco_-_ColecoVision''),
      (''Intv'', ''Mattel_-_Intellivision''),
      (''Vectrex'', ''GCE_-_Vectrex''),
      (''WS'', ''Bandai_-_WonderSwan''),
      (''NGP'', ''SNK_-_Neo_Geo_Pocket'')]"

fun libretro_lookup :: "(string \<times> string) list \<Rightarrow> string \<Rightarrow> string" where
  "libretro_lookup [] short_name = short_name"
| "libretro_lookup ((k, v) # mappings) short_name =
     (if strcasecmp short_name k = 0 then v else libretro_lookup mappings short_name)"

definition get_libretro_system_name :: "string \<Rightarrow> string" where
  "get_libretro_system_name short_name = libretro_lookup libretro_mappings short_name"

text \<open>
  \<^verbatim>\<open>download_file\<close> runs \<^verbatim>\<open>wget\<close> through the shell. The call is recorded in
  \<open>downloads\<close>; the quoting of the command line is not modelled.
\<close>

definition download_file :: "pv_env \<Rightarrow> string \<Rightarrow> string \<Rightarrow> pv_state \<Rightarrow> int \<times> pv_state" where
  "download_file env url save_path s =
     (let (ret, left) = wget env url save_path;
          s1 = s\<lparr>downloads := downloads s @ [url], disk := (disk s)(save_path := left)\<rparr>
      in if ret = 0 \<and> pv_FileExists s1 save_path then (0, s1)
         else (- 1, s1\<lparr>disk := (disk s1)(save_path := None)\<rparr>))"

text \<open>
  The URL of a thumbnail: the three calls of \<^verbatim>\<open>snprintf\<close> in
  \<^verbatim>\<open>rom_preview_fetch_online\<close> differ in the category only.
\<close>

definition libretro_url :: "string \<Rightarrow> string \<Rightarrow> string \<Rightarrow> string" where
  "libretro_url libretro_system category encoded_name =
     snprintf 1024
       (''https://thumbnails.libretro.com/'' @ libretro_system @ ''/'' @ category @ ''/''
          @ encoded_name @ ''.png'')"

definition rom_preview_fetch_online ::
  "pv_env \<Rightarrow> cat_state \<Rightarrow> rom_entry option \<Rightarrow> pv_state \<Rightarrow> int \<times> pv_state" where
  "rom_preview_fetch_online env cat rom_ptr s =
     (case rom_ptr of
        None \<Rightarrow> (- 1, s)
      | Some rom \<Rightarrow>
          (case rom_station_get (e_station_id rom) cat of
             None \<Rightarrow> (- 1, s)
           | Some station \<Rightarrow>
               if rom_preview_check_internet env = 0
               then (- 1, s\<lparr>g_current_preview :=
                               (g_current_preview s)\<lparr>status := PREVIEW_STATUS_NO_INTERNET\<rparr>\<rparr>)
               else
                 (let s1 = s\<lparr>g_current_preview :=
                               (g_current_preview s)\<lparr>status := PREVIEW_STATUS_LOADING\<rparr>\<rparr>;
                      save_dir = snprintf 512
                        (getFullPath_GAMES_DIR env @ ''/'' @ PREVIEW_CACHE_DIR @ ''/''
                           @ st_short_name (stations cat station));
                      save_path = snprintf 1024 (save_dir @ ''/'' @ e_name rom @ ''.png'');
                      libretro_system =
                        get_libretro_system_name (st_short_name (stations cat station));
                      encoded_name = url_encode (e_name rom) 512;
                      url1 = libretro_url libretro_system ''Named_Boxarts'' encoded_name;
                      (r1, s2) = download_file env url1 save_path s1
                  in if r1 = 0 then rom_preview_load_local env cat rom_ptr s2
                     else
                       (let url2 = libretro_url libretro_system ''Named_Snaps'' encoded_name;
                            (r2, s3) = download_file env url2 save_path s2
                        in if r2 = 0 then rom_preview_load_local env cat rom_ptr s3
                           else
                             (let url3 = libretro_url libretro_system ''Named_Titles''
                                           encoded_name;
                                  (r3, s4) = download_file env url3 save_path s3
                              in if r3 = 0 then rom_preview_load_local env cat rom_ptr s4
                                 else (- 1, s4\<lparr>g_current_preview :=
                                          (g_current_preview s4)
                                             \<lparr>status := PREVIEW_STATUS_NOT_FOUND\<rparr>\<rparr>))))))"

subsection \<open>Asynchronous fetch\<close>

definition fetch_thread_func ::
  "pv_env \<Rightarrow> cat_state \<Rightarrow> rom_entry option \<Rightarrow> pv_state \<Rightarrow> pv_state" where
  "fetch_thread_func env cat arg s =
     (let s1 = (if \<not> fetch_cancel s \<and> arg \<noteq> None
                then snd (rom_preview_fetch_online env cat arg s) else s)
      in s1\<lparr>fetch_in_progress := False\<rparr>)"

text \<open>\<^verbatim>\<open>pthread_join\<close>: the thread, if it has not run yet, runs now.\<close>

definition pthread_join :: "pv_env \<Rightarrow> cat_state \<Rightarrow> pv_state \<Rightarrow> pv_state" where
  "pthread_join env cat s =
     (case fetch_thread s of
        None \<Rightarrow> s
      | Some arg \<Rightarrow> fetch_thread_func env cat arg (s\<lparr>fetch_thread := None\<rparr>))"

definition rom_preview_fetch_async ::
  "pv_env \<Rightarrow> cat_state \<Rightarrow> rom_entry option \<Rightarrow> pv_state \<Rightarrow> int \<times> pv_state" where
  "rom_preview_fetch_async env cat rom_ptr s =
     (let s1 = (if fetch_in_progress s
                then pthread_join env cat (s\<lparr>fetch_cancel := True\<rparr>) else s);
          s2 = s1\<lparr>fetch_cancel := False, fetch_in_progress := True,
                  g_current_preview :=
                    (g_current_preview s1)\<lparr>status := PREVIEW_STATUS_LOADING\<rparr>\<rparr>
      in if \<not> pthread_create_ok env
         then (- 1, s2\<lparr>fetch_in_progress := False,
                       g_current_preview :=
                         (g_current_preview s2)\<lparr>status := PREVIEW_STATUS_ERROR\<rparr>\<rparr>)
         else (0, s2\<lparr>fetch_thread := Some rom_ptr\<rparr>))"

definition rom_preview_fetch_poll :: "pv_state \<Rightarrow> int" where
  "rom_preview_fetch_poll s = (if fetch_in_progress s then 0 else 1)"

section \<open>Notions of the specification\<close>

text \<open>The entries of the Entry Store, in store order: the cells in use.\<close>

definition store_entries :: "cat_state \<Rightarrow> rom_entry list" where
  "store_entries s = take (rom_count s) (roms s)"

text \<open>The entries the browse view points to, in view order.\<close>

definition view_entries :: "cat_state \<Rightarrow> rom_entry list" where
  "view_entries s = (case filtered_roms s of None \<Rightarrow> [] | Some v \<Rightarrow> map (\<lambda>i. roms s ! i) v)"

text \<open>
  The display name contains the search text as a substring, ignoring case.
\<close>

definition contains_ci :: "string \<Rightarrow> string \<Rightarrow> bool" where
  "contains_ci name txt = sublist (map tolower txt) (map tolower name)"

text \<open>
  An entry passes the filters of the specification: the station filter is \<open>all\<close>
  (negative) or the number of the entry's station, and the search text is empty or
  contained in the display name.
\<close>

definition entry_visible :: "u32 \<Rightarrow> string \<Rightarrow> rom_entry \<Rightarrow> bool" where
  "entry_visible station_filter txt r =
     ((sint station_filter < 0 \<or> uint (e_station_id r) = sint station_filter)
      \<and> (txt = [] \<or> contains_ci (e_name r) txt))"

text \<open>The test of the loop of \<^verbatim>\<open>rebuild_filtered_list\<close> on the cell \<open>i\<close>.\<close>

definition keeps :: "cat_state \<Rightarrow> nat \<Rightarrow> bool" where
  "keeps s i =
     (\<not> (0 \<le> sint (browse_station_filter s)
          \<and> e_station_id (roms s ! i) \<noteq> browse_station_filter s)
      \<and> \<not> (search_filter s \<noteq> []
             \<and> strcasestr (e_name (roms s ! i)) (search_filter s) = None))"

text \<open>
  The tokens of an allow-list: the maximal runs of characters other than the space,
  from left to right. \<open>cur\<close> is the token being read.
\<close>

fun split_tokens :: "string \<Rightarrow> string \<Rightarrow> string list" where
  "split_tokens cur [] = (if cur = [] then [] else [cur])"
| "split_tokens cur (c # cs) =
     (if c = CHR '' '' then (if cur = [] then split_tokens [] cs else cur # split_tokens [] cs)
      else split_tokens (cur @ [c]) cs)"

definition allow_tokens :: "string \<Rightarrow> string list" where
  "allow_tokens extensions = split_tokens [] extensions"

text \<open>
  Two catalog states agree on the registry as far as \<^verbatim>\<open>rom_scan_all\<close> reads it: the
  station count, the cancel flag and the enabled flags of the slots.
\<close>

definition same_registry :: "cat_state \<Rightarrow> cat_state \<Rightarrow> bool" where
  "same_registry s s' =
     (station_count s' = station_count s \<and> scan_cancel_flag s' = scan_cancel_flag s
      \<and> (\<forall>j. st_enabled (stations s' j) = st_enabled (stations s j)))"

text \<open>The slots below \<open>ROM_MAX_STATIONS\<close> that are enabled, from slot \<open>i\<close> on.\<close>

definition enabled_slots :: "nat \<Rightarrow> cat_state \<Rightarrow> nat list" where
  "enabled_slots i s = filter (\<lambda>j. st_enabled (stations s j)) [i..<ROM_MAX_STATIONS]"

text \<open>The part of a file name after its last dot, if it has a dot.\<close>

definition after_last_dot :: "string \<Rightarrow> string option" where
  "after_last_dot filename =
     (if CHR ''.'' \<in> set filename
      then Some (rev (takeWhile (\<lambda>c. c \<noteq> CHR ''.'') (rev filename))) else None)"

text \<open>
  Extension matching as the specification words it: the part after the last dot, lowered
  and truncated to 8 characters, is compared with every token, each lowered and capped at
  8 characters. The allow-list is space-separated, so the whitespace between tokens is
  the space.
\<close>

definition spec_match_extension :: "string \<Rightarrow> string \<Rightarrow> bool" where
  "spec_match_extension filename extensions =
     (extensions = [] \<or>
      (case after_last_dot filename of
         None \<Rightarrow> False
       | Some ext \<Rightarrow>
           list_ex (\<lambda>tok. map tolower (take 8 ext) = map tolower (take 8 tok))
             (allow_tokens extensions)))"

text \<open>
  Extension matching with the tokens of more than 8 characters left out instead of
  capped.
\<close>

definition amended_match_extension :: "string \<Rightarrow> string \<Rightarrow> bool" where
  "amended_match_extension filename extensions =
     (extensions = [] \<or>
      (case after_last_dot filename of
         None \<Rightarrow> False
       | Some ext \<Rightarrow>
           list_ex (\<lambda>tok. length tok \<le> 8 \<and> map tolower (take 8 ext) = map tolower tok)
             (allow_tokens extensions)))"

text \<open>
  The states of the preview system that are reached from program start without any
  call of \<^verbatim>\<open>rom_preview_fetch_async\<close>.
\<close>

inductive before_any_async :: "pv_env \<Rightarrow> pv_state \<Rightarrow> bool" for env :: pv_env where
  startup: "before_any_async env (pv_startup d)"
| clear: "before_any_async env s \<Longrightarrow> before_any_async env (rom_preview_clear s)"
| load_local:
    "before_any_async env s \<Longrightarrow>
     before_any_async env (snd (rom_preview_load_local env cat rom_ptr s))"
| fetch_online:
    "before_any_async env s \<Longrightarrow>
     before_any_async env (snd (rom_preview_fetch_online env cat rom_ptr s))"

section \<open>Example states\<close>

text \<open>An insertion sort by a comparison function, as one possible \<^verbatim>\<open>qsort\<close>.\<close>

fun insert_cmp :: "(nat \<Rightarrow> nat \<Rightarrow> int) \<Rightarrow> nat \<Rightarrow> nat list \<Rightarrow> nat list" where
  "insert_cmp cmp x [] = [x]"
| "insert_cmp cmp x (y # ys) = (if cmp x y \<le> 0 then x # y # ys else y # insert_cmp cmp x ys)"

fun isort_cmp :: "(nat \<Rightarrow> nat \<Rightarrow> int) \<Rightarrow> nat list \<Rightarrow> nat list" where
  "isort_cmp cmp [] = []"
| "isort_cmp cmp (x # xs) = insert_cmp cmp x (isort_cmp cmp xs)"

text \<open>An environment with an empty card on which every allocation succeeds.\<close>

definition ex_env :: cat_env where
  "ex_env =
     \<lparr>malloc_ok = (\<lambda>n. True), realloc_ok = (\<lambda>n. True),
      games_dir = ''/media/fat/games'', root_dir = ''/media/fat'',
      FileExists = (\<lambda>p. False), PathIsDir = (\<lambda>p. False),
      opendir = (\<lambda>p. None), stat = (\<lambda>p. None), qsort = isort_cmp\<rparr>"

text \<open>
  The catalog after a successful \<^verbatim>\<open>rom_catalog_init\<close> at program start: everything
  zero, an array of 1024 cells, and the statics at their initialisers.
\<close>

definition cat_startup :: cat_state where
  "cat_startup =
     \<lparr>stations = (\<lambda>i. zero_station), station_count = 0,
      roms = replicate 1024 zero_entry, rom_count = 0, rom_capacity = 1024,
      initialized = True, scanning = False, scan_progress = 0, scan_status = [],
      iSelectedEntry = 0, iFirstEntry = 0, browse_station_filter = - 1,
      filtered_roms = None, filtered_count = 0, filtered_capacity = 0,
      search_filter = [], scan_cancel_flag = False,
      current_sort_mode = ROM_SORT_NAME_ASC, config_file = (\<lambda>i. zero_station)\<rparr>"

definition ex_rom :: "string \<Rightarrow> u32 \<Rightarrow> rom_entry" where
  "ex_rom n sid = zero_entry\<lparr>e_name := n, e_station_id := sid\<rparr>"

text \<open>
  A catalog with two stations and three entries: two of station 0, then one of station 1.
\<close>

definition ex_catalog :: cat_state where
  "ex_catalog =
     cat_startup
       \<lparr>stations := (\<lambda>i. zero_station)
          (0 := zero_station\<lparr>st_id := 0, st_short_name := ''NES'', st_extensions := ''nes'',
                              st_enabled := True, st_rom_count := 2\<rparr>,
           1 := zero_station\<lparr>st_id := 1, st_short_name := ''SNES'', st_extensions := ''sfc smc'',
                              st_enabled := True, st_rom_count := 1\<rparr>),
        station_count := 2,
        roms := ex_rom ''Super Mario'' 0 # ex_rom ''Zelda'' 0 # ex_rom ''Mario Kart'' 1
                  # replicate 1021 zero_entry,
        rom_count := 3\<rparr>"

text \<open>
  The example catalog browsed with all stations, filtered by the text \<open>mario\<close>, and the
  cursor moved to the second of the two entries found.
\<close>

definition ex_filtered :: cat_state where
  "ex_filtered =
     rom_browse_scan 16 SCANF_NEXT
       (rom_filter_set ex_env ''mario'' (rom_browse_init ex_env (- 1) ex_catalog))"

definition ex_station :: rom_station where
  "ex_station =
     zero_station\<lparr>st_id := 3, st_name := ''Game Boy'', st_short_name := ''GB'',
       st_rom_path := ''GameBoy'', st_extensions := ''gb gbc'', st_enabled := True\<rparr>"

text \<open>
  An environment of the preview system without network, in which no thread can be
  created, and a state in which a background fetch has been started and has not run.
\<close>

definition ex_pv_env :: pv_env where
  "ex_pv_env =
     \<lparr>getaddrinfo = (\<lambda>host service. - 2), wget = (\<lambda>url save_path. (4, None)),
      pthread_create_ok = False, getFullPath_GAMES_DIR = ''/media/fat/games''\<rparr>"

definition ex_fetching :: pv_state where
  "ex_fetching =
     (pv_startup (\<lambda>p. None))
       \<lparr>fetch_thread := Some (Some (ex_rom ''Zelda'' 0)), fetch_in_progress := True,
        g_current_preview := zero_preview\<lparr>status := PREVIEW_STATUS_LOADING\<rparr>\<rparr>"

text \<open>
  The example catalog after station 0 has been removed: slot 0 is free, slot 1 holds the
  only station.
\<close>

definition ex_sparse :: cat_state where
  "ex_sparse = snd (rom_station_remove ex_env 0 ex_catalog)"

text \<open>
  A catalog without entries whose only station sits in the last slot, as it is after 32
  stations have been added and the first 31 removed.
\<close>

definition ex_last_slot :: cat_state where
  "ex_last_slot =
     cat_startup
       \<lparr>stations := (\<lambda>i. zero_station)
          (31 := zero_station\<lparr>st_id := 31, st_short_name := ''NGP'', st_rom_path := ''NeoGeo'',
                               st_extensions := ''ngp ngc'', st_enabled := True\<rparr>),
        station_count := 1\<rparr>"

section \<open>Properties of the browse view\<close>

lemma strcasestr_sublist:
  "strcasestr h n \<noteq> None \<longleftrightarrow> sublist (map tolower n) (map tolower h)"
  by (induction h) (auto simp: sublist_Cons_right)

lemma keeps_upd [simp]:
  "keeps (s\<lparr>filtered_roms := a\<rparr>) = keeps s"
  "keeps (s\<lparr>filtered_count := b\<rparr>) = keeps s"
  "keeps (s\<lparr>filtered_capacity := c\<rparr>) = keeps s"
  by (rule ext, simp add: keeps_def)+

lemma rebuild_loop_closed:
  "rebuild_loop i s =
     s\<lparr>filtered_roms := map_option (\<lambda>v. v @ filter (keeps s) [i..<rom_count s]) (filtered_roms s),
       filtered_count := filtered_count s + length (filter (keeps s) [i..<rom_count s])\<rparr>"
proof (induction i s rule: rebuild_loop.induct)
  case (1 i s)
  show ?case
  proof (cases "i < rom_count s")
    case False
    then show ?thesis by (subst rebuild_loop.simps) (simp add: option.map_ident)
  next
    case lt: True
    then have upt: "[i..<rom_count s] = i # [i + 1..<rom_count s]"
      by (simp add: upt_conv_Cons)
    show ?thesis
    proof (cases "keeps s i")
      case True
      define s' where "s' = s\<lparr>filtered_roms := map_option (\<lambda>v. v @ [i]) (filtered_roms s),
                   filtered_count := filtered_count s + 1\<rparr>"
      have "rebuild_loop i s = rebuild_loop (i + 1) s'"
        using lt True by (subst rebuild_loop.simps) (auto simp add: keeps_def Let_def s'_def)
      also have "\<dots> = s'\<lparr>filtered_roms := map_option (\<lambda>v. v @ filter (keeps s') [i + 1..<rom_count s']) (filtered_roms s'),
       filtered_count := filtered_count s' + length (filter (keeps s') [i + 1..<rom_count s'])\<rparr>"
        unfolding s'_def using lt True by (intro "1.IH"(3)) (auto simp: keeps_def)
      also have "\<dots> = s\<lparr>filtered_roms := map_option (\<lambda>v. v @ filter (keeps s) [i..<rom_count s]) (filtered_roms s),
       filtered_count := filtered_count s + length (filter (keeps s) [i..<rom_count s])\<rparr>"
        unfolding upt using True by (cases "filtered_roms s") (simp_all add: s'_def)
      finally show ?thesis .
    next
      case False
      have "rebuild_loop i s = rebuild_loop (i + 1) s"
        using lt False by (subst rebuild_loop.simps) (auto simp add: keeps_def Let_def)
      also have "\<dots> = s\<lparr>filtered_roms := map_option (\<lambda>v. v @ filter (keeps s) [i + 1..<rom_count s]) (filtered_roms s),
       filtered_count := filtered_count s + length (filter (keeps s) [i + 1..<rom_count s])\<rparr>"
      proof (cases "0 \<le> sint (browse_station_filter s) \<and> e_station_id (roms s ! i) \<noteq> browse_station_filter s")
        case True
        show ?thesis by (rule "1.IH"(1)[OF lt refl True])
      next
        case nc: False
        with False have c2: "search_filter s \<noteq> [] \<and> strcasestr (e_name (roms s ! i)) (search_filter s) = None"
          by (simp add: keeps_def)
        show ?thesis by (rule "1.IH"(2)[OF lt refl nc c2])
      qed
      also have "\<dots> = s\<lparr>filtered_roms := map_option (\<lambda>v. v @ filter (keeps s) [i..<rom_count s]) (filtered_roms s),
       filtered_count := filtered_count s + length (filter (keeps s) [i..<rom_count s])\<rparr>"
        unfolding upt using False by simp
      finally show ?thesis .
    qed
  qed
qed

lemma rebuild_filtered_list_closed:
  "rebuild_filtered_list env s =
     (if malloc_ok env (if rom_count s > 0 then rom_count s else 64)
      then s\<lparr>filtered_roms := Some (filter (keeps s) [0..<rom_count s]),
             filtered_count := length (filter (keeps s) [0..<rom_count s]),
             filtered_capacity := (if rom_count s > 0 then rom_count s else 64)\<rparr>
      else s\<lparr>filtered_roms := None, filtered_count := 0,
             filtered_capacity := (if rom_count s > 0 then rom_count s else 64)\<rparr>)"
  by (simp add: rebuild_filtered_list_def Let_def rebuild_loop_closed keeps_def)

lemma keeps_visible:
  "keeps s i \<longleftrightarrow> entry_visible (browse_station_filter s) (search_filter s) (roms s ! i)"
proof -
  have st: "(\<not> (0 \<le> sint f \<and> x \<noteq> f)) \<longleftrightarrow> (sint f < 0 \<or> uint x = sint f)" for f x :: u32
  proof (cases "0 \<le> sint f")
    case True
    moreover have "sint f < 2 ^ 32"
      using sint_lt [of f] by simp
    ultimately have "sint f = uint f"
      by (simp add: uint_sint take_bit_int_eq_self)
    with True show ?thesis by (auto simp: word_uint_eq_iff)
  next
    case False
    then show ?thesis by auto
  qed
  have tx: "(\<not> (t \<noteq> [] \<and> strcasestr n t = None)) \<longleftrightarrow> (t = [] \<or> contains_ci n t)" for t n
    using strcasestr_sublist [of n t] by (auto simp: contains_ci_def)
  show ?thesis
    by (simp only: keeps_def entry_visible_def st tx)
qed

lemma map_nth_filter_upt:
  assumes "n \<le> length xs"
  shows "map (\<lambda>i. xs ! i) (filter (\<lambda>i. P (xs ! i)) [0..<n]) = filter P (take n xs)"
proof -
  have "take n xs = map (\<lambda>i. xs ! i) [0..<n]"
    using assms by (auto simp: list_eq_iff_nth_eq)
  then show ?thesis by (simp add: filter_map comp_def)
qed

lemma contains_ci_extend:
  "contains_ci name (txt @ added) \<Longrightarrow> contains_ci name txt"
  unfolding contains_ci_def by (auto simp: sublist_def)

lemma contains_ci_strcasestr: "contains_ci name txt \<longleftrightarrow> strcasestr name txt \<noteq> None"
  using strcasestr_sublist [of name "txt"] by (simp add: contains_ci_def)

lemmas char_eval = tolower_def char_of_def bit_Suc_0_iff

lemmas ex_defs = ex_env_def ex_catalog_def cat_startup_def ex_rom_def zero_entry_def
  zero_station_def

text \<open>
  Claim C1. For every catalog state, station filter and search text, the rebuilt browse
  view holds exactly the entries of the Entry Store, in store order, whose station is the
  one of the filter (or the filter is negative, meaning all) and whose display name
  contains the search text as a substring ignoring case (or the search text is empty).
  So the view is a subset of those entries, and its count does not grow when the search
  text is extended, be it in the state or through \<^verbatim>\<open>rom_filter_set\<close>. The allocation of
  the pointer array is taken to succeed, and the entries in use to lie inside the array.
\<close>

theorem rebuild_filtered_list_view:
  assumes "malloc_ok env (if rom_count s > 0 then rom_count s else 64)"
    and "rom_count s \<le> length (roms s)"
  shows "view_entries (rebuild_filtered_list env s)
           = filter (entry_visible (browse_station_filter s) (search_filter s)) (store_entries s)
       \<and> filtered_count (rebuild_filtered_list env s)
           = length (view_entries (rebuild_filtered_list env s))
       \<and> set (view_entries (rebuild_filtered_list env s))
           \<subseteq> {r \<in> set (store_entries s).
                entry_visible (browse_station_filter s) (search_filter s) r}
       \<and> filtered_count (rebuild_filtered_list env (s\<lparr>search_filter := search_filter s @ added\<rparr>))
           \<le> filtered_count (rebuild_filtered_list env s)
       \<and> filtered_count (rom_filter_set env (txt @ added) s)
           \<le> filtered_count (rom_filter_set env txt s)"
proof -
  let ?s' = "rebuild_filtered_list env s"
  let ?P = "entry_visible (browse_station_filter s) (search_filter s)"
  have keeps: "keeps s = (\<lambda>i. ?P (roms s ! i))"
    by (rule ext) (simp add: keeps_visible)
  have v: "view_entries ?s' = filter ?P (store_entries s)"
    using assms
    by (simp add: rebuild_filtered_list_closed view_entries_def store_entries_def keeps
        map_nth_filter_upt)
  have c: "filtered_count ?s' = length (view_entries ?s')"
    using assms(1) by (simp add: rebuild_filtered_list_closed view_entries_def)
  have sub: "set (view_entries ?s') \<subseteq> {r \<in> set (store_entries s). ?P r}"
    unfolding v by auto
  have mono: "filtered_count (rebuild_filtered_list env (t\<lparr>search_filter := search_filter t @ more_txt\<rparr>))
           \<le> filtered_count (rebuild_filtered_list env t)"
    if ok: "malloc_ok env (if rom_count t > 0 then rom_count t else 64)" for t more_txt
  proof -
    let ?t = "t\<lparr>search_filter := search_filter t @ more_txt\<rparr>"
    have imp: "keeps ?t i \<Longrightarrow> keeps t i" for i
      unfolding keeps_visible entry_visible_def
      by (auto dest: contains_ci_extend)
    have "filter (keeps ?t) [0..<rom_count t]
            = filter (keeps ?t) (filter (keeps t) [0..<rom_count t])"
      using imp by (auto intro: filter_cong)
    then have "length (filter (keeps ?t) [0..<rom_count t])
                 \<le> length (filter (keeps t) [0..<rom_count t])"
      by (metis length_filter_le)
    then show ?thesis
      using ok by (simp add: rebuild_filtered_list_closed)
  qed
  have m1: "filtered_count (rebuild_filtered_list env (s\<lparr>search_filter := search_filter s @ added\<rparr>))
           \<le> filtered_count ?s'"
    using assms(1) by (rule mono)
  have m2: "filtered_count (rom_filter_set env (txt @ added) s)
           \<le> filtered_count (rom_filter_set env txt s)"
  proof -
    let ?t = "s\<lparr>search_filter := take 255 txt\<rparr>"
    have "malloc_ok env (if rom_count ?t > 0 then rom_count ?t else 64)"
      using assms(1) by (simp split: if_splits)
    from mono [OF this, of "take (255 - length txt) added"] show ?thesis
      by (simp add: rom_filter_set_def Let_def)
  qed
  from v c sub m1 m2 show ?thesis by blast
qed

theorem rebuild_filtered_list_view_witness:
  "view_entries (rebuild_filtered_list ex_env (ex_catalog\<lparr>search_filter := ''MARIO''\<rparr>))
     = [ex_rom ''Super Mario'' 0, ex_rom ''Mario Kart'' 1]
   \<and> filtered_count (rebuild_filtered_list ex_env (ex_catalog\<lparr>search_filter := ''MARIO''\<rparr>)) = 2
   \<and> filtered_count (rebuild_filtered_list ex_env (ex_catalog\<lparr>search_filter := ''MARIO K''\<rparr>))
       \<le> filtered_count (rebuild_filtered_list ex_env (ex_catalog\<lparr>search_filter := ''MARIO''\<rparr>))"
proof -
  let ?s = "ex_catalog\<lparr>search_filter := ''MARIO''\<rparr>"
  have ok: "malloc_ok ex_env (if rom_count ?s > 0 then rom_count ?s else 64)"
    by (simp add: ex_env_def)
  have len: "rom_count ?s \<le> length (roms ?s)"
    by (simp add: ex_catalog_def cat_startup_def)
  have vis: "filter (entry_visible (browse_station_filter ?s) (search_filter ?s)) (store_entries ?s)
               = [ex_rom ''Super Mario'' 0, ex_rom ''Mario Kart'' 1]"
    by (simp add: entry_visible_def contains_ci_strcasestr store_entries_def ex_defs char_eval)
  note th = rebuild_filtered_list_view [OF ok len, of "'' K''" "''MARIO''"]
  have a: "view_entries (rebuild_filtered_list ex_env ?s)
             = [ex_rom ''Super Mario'' 0, ex_rom ''Mario Kart'' 1]"
    using th [THEN conjunct1] vis by simp
  have b: "filtered_count (rebuild_filtered_list ex_env ?s) = 2"
    using th [THEN conjunct2, THEN conjunct1] a by simp
  have c: "filtered_count (rebuild_filtered_list ex_env (ex_catalog\<lparr>search_filter := ''MARIO K''\<rparr>))
       \<le> filtered_count (rebuild_filtered_list ex_env ?s)"
    using th [THEN conjunct2, THEN conjunct2, THEN conjunct2, THEN conjunct1] by simp
  from a b c show ?thesis by blast
qed

section \<open>Sorting and rebuilding\<close>

lemma keeps_sort_upd [simp]:
  "keeps (s\<lparr>current_sort_mode := m\<rparr>) = keeps s"
  by (rule ext) (simp add: keeps_def)

lemma rom_sort_shape:
  "\<exists>x. rom_sort env mode s = s\<lparr>current_sort_mode := mode, filtered_roms := x\<rparr>"
proof (cases "filtered_roms s")
  case None
  then have "rom_sort env mode s = s\<lparr>current_sort_mode := mode, filtered_roms := None\<rparr>"
    by (simp add: rom_sort_def Let_def)
  then show ?thesis ..
next
  case (Some v)
  show ?thesis
  proof (cases "filtered_count s > 0")
    case True
    with Some have "rom_sort env mode s = s\<lparr>current_sort_mode := mode, filtered_roms :=
        Some (qsort env (\<lambda>a b. compare_roms mode (roms s ! a) (roms s ! b))
                (take (filtered_count s) v) @ drop (filtered_count s) v)\<rparr>"
      by (simp add: rom_sort_def Let_def)
    then show ?thesis ..
  next
    case False
    with Some have "rom_sort env mode s = s\<lparr>current_sort_mode := mode, filtered_roms := Some v\<rparr>"
      by (simp add: rom_sort_def Let_def)
    then show ?thesis ..
  qed
qed

text \<open>
  Claim C4. Sorting does not survive a rebuild: for every state, sorting the view and then
  rebuilding it with the station filter and the search text unchanged gives the view in
  Entry Store order, the same view as rebuilding without the sort. The rebuilt state
  differs from the one without the sort only in the recorded sort mode, and sorting
  leaves the Entry Store untouched. The allocation of the pointer array is taken to
  succeed, and the entries in use to lie inside the array.
\<close>

theorem sort_is_lost_on_rebuild:
  assumes "malloc_ok env (if rom_count s > 0 then rom_count s else 64)"
    and "rom_count s \<le> length (roms s)"
  shows "view_entries (rebuild_filtered_list env (rom_sort env mode s))
           = filter (entry_visible (browse_station_filter s) (search_filter s)) (store_entries s)
       \<and> view_entries (rebuild_filtered_list env (rom_sort env mode s))
           = view_entries (rebuild_filtered_list env s)
       \<and> rebuild_filtered_list env (rom_sort env mode s)
           = (rebuild_filtered_list env s)\<lparr>current_sort_mode := mode\<rparr>
       \<and> roms (rom_sort env mode s) = roms s
       \<and> rom_count (rom_sort env mode s) = rom_count s"
proof -
  obtain x where x: "rom_sort env mode s = s\<lparr>current_sort_mode := mode, filtered_roms := x\<rparr>"
    using rom_sort_shape by blast
  have eq: "rebuild_filtered_list env (rom_sort env mode s)
           = (rebuild_filtered_list env s)\<lparr>current_sort_mode := mode\<rparr>"
    by (simp add: x rebuild_filtered_list_closed)
  let ?P = "entry_visible (browse_station_filter s) (search_filter s)"
  have keeps: "keeps s = (\<lambda>i. ?P (roms s ! i))"
    by (rule ext) (simp add: keeps_visible)
  have v: "view_entries (rebuild_filtered_list env s) = filter ?P (store_entries s)"
    using assms
    by (simp add: rebuild_filtered_list_closed view_entries_def store_entries_def keeps
        map_nth_filter_upt)
  have v2: "view_entries (rebuild_filtered_list env (rom_sort env mode s))
           = view_entries (rebuild_filtered_list env s)"
    by (simp add: eq view_entries_def split: option.splits)
  show ?thesis
    using eq v v2 by (simp add: x)
qed

theorem sort_is_lost_on_rebuild_witness:
  "filtered_roms (rom_sort ex_env ROM_SORT_NAME_ASC (rom_browse_init ex_env (- 1) ex_catalog))
     = Some [2, 0, 1]
   \<and> view_entries (rebuild_filtered_list ex_env
        (rom_sort ex_env ROM_SORT_NAME_ASC (rom_browse_init ex_env (- 1) ex_catalog)))
     = [ex_rom ''Super Mario'' 0, ex_rom ''Zelda'' 0, ex_rom ''Mario Kart'' 1]"
proof -
  let ?s = "rom_browse_init ex_env (- 1) ex_catalog"
  have ok: "malloc_ok ex_env (if rom_count ?s > 0 then rom_count ?s else 64)"
    by (simp add: ex_env_def)
  have len: "rom_count ?s \<le> length (roms ?s)"
    by (simp add: rom_browse_init_def rebuild_filtered_list_closed ex_defs)
  have sorted: "filtered_roms (rom_sort ex_env ROM_SORT_NAME_ASC ?s) = Some [2, 0, 1]"
    by (simp add: rom_sort_def rom_browse_init_def rebuild_filtered_list_closed Let_def
        ex_defs keeps_def char_eval upt_conv_Cons)
  have vis: "filter (entry_visible (browse_station_filter ?s) (search_filter ?s)) (store_entries ?s)
               = [ex_rom ''Super Mario'' 0, ex_rom ''Zelda'' 0, ex_rom ''Mario Kart'' 1]"
    by (simp add: rom_browse_init_def rebuild_filtered_list_closed entry_visible_def
        store_entries_def ex_defs)
  from sort_is_lost_on_rebuild [OF ok len, of ROM_SORT_NAME_ASC, THEN conjunct1] vis sorted
  show ?thesis by simp
qed

section \<open>Station removal\<close>

lemma purge_loop_spec:
  assumes "purge_loop sid n i w rs = (w', rs')" and "w \<le> i" and "i \<le> n" and "n \<le> length rs"
  shows "length rs' = length rs
       \<and> w' = w + length (filter (\<lambda>e. e_station_id e \<noteq> sid) (map (\<lambda>j. rs ! j) [i..<n]))
       \<and> take w' rs' = take w rs @ filter (\<lambda>e. e_station_id e \<noteq> sid) (map (\<lambda>j. rs ! j) [i..<n])"
  using assms
proof (induction sid n i w rs rule: purge_loop.induct)
  case (1 sid n i w rs)
  let ?P = "\<lambda>e. e_station_id e \<noteq> sid"
  show ?case
  proof (cases "i < n")
    case False
    with "1.prems" show ?thesis
      by (subst (asm) purge_loop.simps) simp
  next
    case lt: True
    then have upt: "[i..<n] = i # [i + 1..<n]"
      by (simp add: upt_conv_Cons)
    show ?thesis
    proof (cases "?P (rs ! i)")
      case keep: True
      define rs1 where "rs1 = (if w \<noteq> i then rs[w := rs ! i] else rs)"
      have rs1: "rs1 = rs[w := rs ! i]"
        by (simp add: rs1_def)
      have step: "purge_loop sid n (i + 1) (w + 1) rs1 = (w', rs')"
        using "1.prems"(1) lt keep by (subst (asm) purge_loop.simps) (simp add: rs1_def)
      have ih: "length rs' = length rs1
       \<and> w' = w + 1 + length (filter ?P (map (\<lambda>j. rs1 ! j) [i + 1..<n]))
       \<and> take w' rs' = take (w + 1) rs1 @ filter ?P (map (\<lambda>j. rs1 ! j) [i + 1..<n])"
        using "1.prems" lt step unfolding rs1_def by (intro "1.IH"(1) [OF lt keep]) auto
      have same: "map (\<lambda>j. rs1 ! j) [i + 1..<n] = map (\<lambda>j. rs ! j) [i + 1..<n]"
        unfolding rs1 using "1.prems" by (intro map_cong) auto
      have wl: "w < length rs"
        using "1.prems" lt by simp
      have tk: "take (w + 1) rs1 = take w rs @ [rs ! i]"
        unfolding rs1 using wl by (simp add: take_Suc_conv_app_nth)
      have len1: "length rs1 = length rs"
        by (simp add: rs1)
      from ih have a: "length rs' = length rs"
        and b: "w' = w + 1 + length (filter ?P (map (\<lambda>j. rs ! j) [i + 1..<n]))"
        and c: "take w' rs' = (take w rs @ [rs ! i]) @ filter ?P (map (\<lambda>j. rs ! j) [i + 1..<n])"
        unfolding same tk len1 by blast+
      have f: "filter ?P (map (\<lambda>j. rs ! j) [i..<n]) = rs ! i # filter ?P (map (\<lambda>j. rs ! j) [i + 1..<n])"
        unfolding upt using keep by simp
      show ?thesis
        unfolding f using a b c by simp
    next
      case drop: False
      have step: "purge_loop sid n (i + 1) w rs = (w', rs')"
        using "1.prems"(1) lt drop by (subst (asm) purge_loop.simps) simp
      have ih: "length rs' = length rs
       \<and> w' = w + length (filter ?P (map (\<lambda>j. rs ! j) [i + 1..<n]))
       \<and> take w' rs' = take w rs @ filter ?P (map (\<lambda>j. rs ! j) [i + 1..<n])"
        using "1.prems" lt step by (intro "1.IH"(2) [OF lt drop]) auto
      have f: "filter ?P (map (\<lambda>j. rs ! j) [i..<n]) = filter ?P (map (\<lambda>j. rs ! j) [i + 1..<n])"
        unfolding upt using drop by simp
      show ?thesis
        unfolding f using ih .
    qed
  qed
qed

lemma purge_loop_all:
  assumes "purge_loop sid n 0 0 rs = (w', rs')" and "n \<le> length rs"
  shows "take w' rs' = filter (\<lambda>e. e_station_id e \<noteq> sid) (take n rs)"
    and "w' = length (filter (\<lambda>e. e_station_id e \<noteq> sid) (take n rs))"
    and "length rs' = length rs"
proof -
  have tk: "map (\<lambda>j. rs ! j) [0..<n] = take n rs"
    using assms(2) by (auto simp: list_eq_iff_nth_eq)
  have th: "length rs' = length rs \<and> w' = length (filter (\<lambda>e. e_station_id e \<noteq> sid) (take n rs))
      \<and> take w' rs' = filter (\<lambda>e. e_station_id e \<noteq> sid) (take n rs)"
    using purge_loop_spec [OF assms(1) _ _ assms(2)] by (auto simp: tk)
  show "take w' rs' = filter (\<lambda>e. e_station_id e \<noteq> sid) (take n rs)"
    using th by blast
  show "w' = length (filter (\<lambda>e. e_station_id e \<noteq> sid) (take n rs))"
    using th by blast
  show "length rs' = length rs"
    using th by blast
qed

lemma rebuild_frame [simp]:
  "roms (rebuild_filtered_list env s) = roms s"
  "rom_count (rebuild_filtered_list env s) = rom_count s"
  "stations (rebuild_filtered_list env s) = stations s"
  "station_count (rebuild_filtered_list env s) = station_count s"
  "iSelectedEntry (rebuild_filtered_list env s) = iSelectedEntry s"
  "iFirstEntry (rebuild_filtered_list env s) = iFirstEntry s"
  "search_filter (rebuild_filtered_list env s) = search_filter s"
  "browse_station_filter (rebuild_filtered_list env s) = browse_station_filter s"
  "scan_cancel_flag (rebuild_filtered_list env s) = scan_cancel_flag s"
  "config_file (rebuild_filtered_list env s) = config_file s"
  by (simp_all add: rebuild_filtered_list_closed)

text \<open>
  Claim C5. For every Entry Store (with the entries in use inside the array) and every
  station number: if the number is that of an enabled station, removing the station
  returns 0 (Ok), deletes from the store exactly the entries of that station, keeps the
  other entries in their order, sets the count of the store to their number, and disables
  the slot; if the number is out of range or the slot is not enabled, the call returns -1
  (NotFound) and leaves the whole state as it was.
\<close>

theorem rom_station_remove_purges:
  assumes "rom_count s \<le> length (roms s)"
  shows "(unat sid < ROM_MAX_STATIONS \<and> st_enabled (stations s (unat sid)) \<longrightarrow>
            fst (rom_station_remove env sid s) = 0
          \<and> store_entries (snd (rom_station_remove env sid s))
              = filter (\<lambda>e. e_station_id e \<noteq> sid) (store_entries s)
          \<and> rom_count (snd (rom_station_remove env sid s))
              = length (filter (\<lambda>e. e_station_id e \<noteq> sid) (store_entries s))
          \<and> \<not> st_enabled (stations (snd (rom_station_remove env sid s)) (unat sid)))
       \<and> (\<not> (unat sid < ROM_MAX_STATIONS \<and> st_enabled (stations s (unat sid))) \<longrightarrow>
            rom_station_remove env sid s = (- 1, s))"
proof (cases "unat sid < ROM_MAX_STATIONS \<and> st_enabled (stations s (unat sid))")
  case False
  then show ?thesis
    by (auto simp: rom_station_remove_def)
next
  case True
  obtain w rs where p: "purge_loop sid (rom_count s) 0 0 (roms s) = (w, rs)"
    by (cases "purge_loop sid (rom_count s) 0 0 (roms s)")
  from purge_loop_all [OF p assms]
  have tk: "take w rs = filter (\<lambda>e. e_station_id e \<noteq> sid) (take (rom_count s) (roms s))"
    and w: "w = length (filter (\<lambda>e. e_station_id e \<noteq> sid) (take (rom_count s) (roms s)))"
    by simp_all
  have r: "rom_station_remove env sid s =
     (0, rebuild_filtered_list env (rom_catalog_save
       (s\<lparr>roms := rs, rom_count := w,
          stations := (stations s)(unat sid := (stations s (unat sid))\<lparr>st_enabled := False\<rparr>),
          station_count := station_count s - 1\<rparr>)))"
    using True p by (simp add: rom_station_remove_def Let_def)
  show ?thesis
    using True unfolding r by (simp add: store_entries_def rom_catalog_save_def tk) (simp add: w)
qed

theorem rom_station_remove_purges_witness:
  "fst (rom_station_remove ex_env 0 ex_catalog) = 0
   \<and> store_entries (snd (rom_station_remove ex_env 0 ex_catalog)) = [ex_rom ''Mario Kart'' 1]
   \<and> rom_count (snd (rom_station_remove ex_env 0 ex_catalog)) = 1
   \<and> rom_station_remove ex_env 7 ex_catalog = (- 1, ex_catalog)"
proof -
  have len: "rom_count ex_catalog \<le> length (roms ex_catalog)"
    by (simp add: ex_defs)
  have en: "unat (0 :: u32) < ROM_MAX_STATIONS \<and> st_enabled (stations ex_catalog (unat (0 :: u32)))"
    by (simp add: ex_defs ROM_MAX_STATIONS_def)
  have dis: "\<not> (unat (7 :: u32) < ROM_MAX_STATIONS \<and> st_enabled (stations ex_catalog (unat (7 :: u32))))"
    by (simp add: ex_defs ROM_MAX_STATIONS_def)
  have f: "filter (\<lambda>e. e_station_id e \<noteq> 0) (store_entries ex_catalog) = [ex_rom ''Mario Kart'' 1]"
    by (simp add: store_entries_def ex_defs)
  from rom_station_remove_purges [OF len, of 0 ex_env] en f
    rom_station_remove_purges [OF len, of 7 ex_env] dis
  show ?thesis by simp
qed


section \<open>The cursor and the search filter\<close>

lemma rom_filter_set_resets_cursor:
  "iFirstEntry (rom_filter_set env search_text s) = 0
   \<and> iSelectedEntry (rom_filter_set env search_text s) = 0"
  by (simp add: rom_filter_set_def Let_def)

lemma rom_filter_clear_keeps_cursor:
  "iFirstEntry (rom_filter_clear env s) = iFirstEntry s
   \<and> iSelectedEntry (rom_filter_clear env s) = iSelectedEntry s"
  by (simp add: rom_filter_clear_def)

text \<open>
  Claim C6 says that every rebuild caused by a change of the search text, setting it or
  clearing it, puts the cursor back to first-visible index 0 and selected index 0.
  \<^verbatim>\<open>rom_filter_set\<close> does so (\<open>rom_filter_set_resets_cursor\<close>), \<^verbatim>\<open>rom_filter_clear\<close>
  does not: in the example the filter \<open>mario\<close> is active and the second entry found is
  selected; after clearing the filter the view holds all three entries and the selected
  index is still 1.
\<close>

theorem rom_filter_clear_cursor_not_reset:
  "iSelectedEntry ex_filtered = 1
   \<and> search_filter ex_filtered = ''mario''
   \<and> filtered_roms (rom_filter_clear ex_env ex_filtered) = Some [0, 1, 2]
   \<and> iSelectedEntry (rom_filter_clear ex_env ex_filtered) = 1"
  by (simp add: rom_filter_clear_def ex_filtered_def rom_browse_scan_def rom_filter_set_def
      rom_browse_init_def rebuild_filtered_list_closed Let_def ex_defs keeps_def char_eval
      upt_conv_Cons)

section \<open>Extension matching\<close>

lemma strrchr_spec:
  "strrchr s c = (if c \<in> set s then Some (c # rev (takeWhile (\<lambda>x. x \<noteq> c) (rev s))) else None)"
proof (induction s)
  case Nil
  show ?case by simp
next
  case (Cons x xs)
  show ?case
  proof (cases "c \<in> set xs")
    case True
    then have "takeWhile (\<lambda>x. x \<noteq> c) (rev xs @ [x]) = takeWhile (\<lambda>x. x \<noteq> c) (rev xs)"
      by (intro takeWhile_append1 [of c]) auto
    with True Cons show ?thesis by simp
  next
    case False
    then have "takeWhile (\<lambda>x. x \<noteq> c) (rev xs @ [x]) = rev xs @ takeWhile (\<lambda>x. x \<noteq> c) [x]"
      by (intro takeWhile_append2) auto
    with False Cons show ?thesis by auto
  qed
qed

lemma strrchr_after_last_dot:
  "map_option tl (strrchr filename (CHR ''.'')) = after_last_dot filename"
  by (simp add: strrchr_spec after_last_dot_def)

lemma split_tokens_run:
  "split_tokens cur xs
     = split_tokens (cur @ takeWhile (\<lambda>c. c \<noteq> CHR '' '') xs) (dropWhile (\<lambda>c. c \<noteq> CHR '' '') xs)"
  by (induction xs arbitrary: cur) auto

lemma split_tokens_skip:
  "split_tokens [] xs = split_tokens [] (dropWhile (\<lambda>c. c = CHR '' '') xs)"
  by (induction xs) auto

lemma split_tokens_end:
  assumes "cur \<noteq> []" and "xs = [] \<or> hd xs = CHR '' ''"
  shows "split_tokens cur xs = cur # split_tokens [] xs"
  using assms by (cases xs) auto

lemma allow_tokens_step:
  assumes "dropWhile (\<lambda>c. c = CHR '' '') p \<noteq> []"
  shows "allow_tokens p
           = takeWhile (\<lambda>c. c \<noteq> CHR '' '') (dropWhile (\<lambda>c. c = CHR '' '') p)
             # allow_tokens (dropWhile (\<lambda>c. c \<noteq> CHR '' '') (dropWhile (\<lambda>c. c = CHR '' '') p))"
    and "takeWhile (\<lambda>c. c \<noteq> CHR '' '') (dropWhile (\<lambda>c. c = CHR '' '') p) \<noteq> []"
proof -
  let ?p1 = "dropWhile (\<lambda>c. c = CHR '' '') p"
  let ?start = "takeWhile (\<lambda>c. c \<noteq> CHR '' '') ?p1"
  let ?p2 = "dropWhile (\<lambda>c. c \<noteq> CHR '' '') ?p1"
  have "hd ?p1 \<noteq> CHR '' ''"
    using assms hd_dropWhile [of "\<lambda>c. c = CHR '' ''" p] by simp
  then show ne: "?start \<noteq> []"
    using assms by (cases ?p1) auto
  have p2: "?p2 = [] \<or> hd ?p2 = CHR '' ''"
    using hd_dropWhile [of "\<lambda>c. c \<noteq> CHR '' ''" ?p1] by auto
  have "allow_tokens p = split_tokens [] ?p1"
    unfolding allow_tokens_def by (rule split_tokens_skip)
  also have "\<dots> = split_tokens ([] @ ?start) ?p2"
    by (rule split_tokens_run)
  also have "\<dots> = ?start # split_tokens [] ?p2"
    using split_tokens_end [OF ne p2] by simp
  finally show "allow_tokens p = ?start # allow_tokens ?p2"
    by (simp add: allow_tokens_def)
qed

lemma allow_tokens_none:
  assumes "dropWhile (\<lambda>c. c = CHR '' '') p = []"
  shows "allow_tokens p = []"
  using split_tokens_skip [of p] assms by (simp add: allow_tokens_def)

lemma match_tokens_tokens:
  "match_tokens ext_lower p
     \<longleftrightarrow> (\<exists>tok \<in> set (allow_tokens p). length tok \<le> 8 \<and> ext_lower = map tolower tok)"
proof (induction ext_lower p rule: match_tokens.induct)
  case (1 ext_lower p)
  let ?p1 = "dropWhile (\<lambda>c. c = CHR '' '') p"
  let ?start = "takeWhile (\<lambda>c. c \<noteq> CHR '' '') ?p1"
  let ?p2 = "dropWhile (\<lambda>c. c \<noteq> CHR '' '') ?p1"
  show ?case
  proof (cases "?p1 = []")
    case True
    then have "allow_tokens p = []"
      by (rule allow_tokens_none)
    moreover have "\<not> match_tokens ext_lower p"
      using True by (subst match_tokens.simps) simp
    ultimately show ?thesis by simp
  next
    case False
    then have pne: "p \<noteq> []" by auto
    note st = allow_tokens_step [OF False]
    show ?thesis
    proof (cases "length ?start \<le> 8 \<and> ext_lower = map tolower ?start")
      case True
      then have "match_tokens ext_lower p"
        using False pne st(2) by (subst match_tokens.simps) (simp add: Let_def)
      moreover have "\<exists>tok \<in> set (allow_tokens p). length tok \<le> 8 \<and> ext_lower = map tolower tok"
        unfolding st(1) using True by simp
      ultimately show ?thesis by simp
    next
      case nomatch: False
      then have "match_tokens ext_lower p = match_tokens ext_lower ?p2"
        using False pne by (subst match_tokens.simps) (auto simp add: Let_def)
      also have "\<dots> \<longleftrightarrow> (\<exists>tok \<in> set (allow_tokens ?p2). length tok \<le> 8 \<and> ext_lower = map tolower tok)"
        using nomatch by (intro "1.IH" [OF pne refl False refl refl refl]) auto
      also have "\<dots> \<longleftrightarrow> (\<exists>tok \<in> set (allow_tokens p). length tok \<le> 8 \<and> ext_lower = map tolower tok)"
        unfolding st(1) using nomatch by auto
      finally show ?thesis .
    qed
  qed
qed

text \<open>
  Claim C3, amended. An empty allow-list matches every file name. Otherwise a file name
  without a dot never matches, and a file name with a dot matches exactly when the part
  after its last dot, truncated to 8 characters and lowered, is equal to the lowered form
  of some token of the allow-list that has at most 8 characters, the tokens being the
  maximal runs of characters other than the space. A token of more than 8 characters is
  skipped, not capped.
\<close>

theorem match_extension_tokens:
  "match_extension filename extensions \<longleftrightarrow> amended_match_extension filename extensions"
proof (cases "extensions = []")
  case True
  then show ?thesis by (simp add: match_extension_def amended_match_extension_def)
next
  case False
  show ?thesis
  proof (cases "strrchr filename (CHR ''.'')")
    case None
    then have "after_last_dot filename = None"
      using strrchr_after_last_dot [of filename] by simp
    with None False show ?thesis
      by (simp add: match_extension_def amended_match_extension_def)
  next
    case (Some dot)
    then have "after_last_dot filename = Some (tl dot)"
      using strrchr_after_last_dot [of filename] by simp
    with Some False show ?thesis
      by (simp add: match_extension_def amended_match_extension_def Let_def match_tokens_tokens
          list_ex_iff)
  qed
qed

theorem match_extension_tokens_witness:
  "match_extension ''Super_Mario.NES'' ''sfc nes'' \<and> \<not> match_extension ''readme.txt'' ''sfc nes''"
  using match_extension_tokens [of "''Super_Mario.NES''" "''sfc nes''"]
    match_extension_tokens [of "''readme.txt''" "''sfc nes''"]
  by (simp add: amended_match_extension_def after_last_dot_def allow_tokens_def char_eval)

text \<open>
  Claim C3 as stated caps every token at 8 characters before the comparison. With the
  allow-list \<open>abcdefghi\<close> the file \<open>game.abcdefghi\<close> then matches, its extension and the
  token both being cut to \<open>abcdefgh\<close>; \<^verbatim>\<open>match_extension\<close> skips the token of 9
  characters and does not match.
\<close>

theorem match_extension_long_token_counterexample:
  "\<not> (match_extension ''game.abcdefghi'' ''abcdefghi''
        \<longleftrightarrow> spec_match_extension ''game.abcdefghi'' ''abcdefghi'')"
proof -
  have "\<not> match_extension ''game.abcdefghi'' ''abcdefghi''"
    by (simp add: match_extension_def Let_def match_tokens_tokens allow_tokens_def)
  moreover have "spec_match_extension ''game.abcdefghi'' ''abcdefghi''"
    by (simp add: spec_match_extension_def after_last_dot_def allow_tokens_def char_eval)
  ultimately show ?thesis by simp
qed


section \<open>Preview fetching\<close>

lemma preview_set_ready_frame:
  "fetch_in_progress (preview_set_ready img rom s) = fetch_in_progress s
   \<and> downloads (preview_set_ready img rom s) = downloads s
   \<and> disk (preview_set_ready img rom s) = disk s"
  by (cases img) (simp add: preview_set_ready_def)

lemma try_preview_dirs_frame:
  "fetch_in_progress (snd (try_preview_dirs ps rom s)) = fetch_in_progress s
   \<and> downloads (snd (try_preview_dirs ps rom s)) = downloads s
   \<and> disk (snd (try_preview_dirs ps rom s)) = disk s"
proof (induction ps)
  case Nil
  show ?case by simp
next
  case (Cons p ps)
  show ?case
  proof (cases "pv_FileExists s p")
    case False
    with Cons show ?thesis by simp
  next
    case True
    show ?thesis
    proof (cases "imlib_load_image s p")
      case None
      with True Cons show ?thesis by simp
    next
      case (Some img)
      with True show ?thesis by (simp add: preview_set_ready_frame)
    qed
  qed
qed


lemma load_local_shape:
  "(\<exists>img. rom_preview_load_local env cat (Some rom) s
             = (0, preview_set_ready img rom (rom_preview_clear s)))
   \<or> (\<exists>dirs. rom_preview_load_local env cat (Some rom) s
             = try_preview_dirs dirs rom (rom_preview_clear s))"
  unfolding rom_preview_load_local_def Let_def option.case
  by (cases "if e_has_preview rom \<and> e_preview_path rom \<noteq> []
             then imlib_load_image (rom_preview_clear s) (e_preview_path rom) else None")
     (simp_all only: option.case, blast+)

lemma load_local_frame:
  "fetch_in_progress (snd (rom_preview_load_local env cat rom_ptr s)) = fetch_in_progress s
   \<and> downloads (snd (rom_preview_load_local env cat rom_ptr s)) = downloads s
   \<and> disk (snd (rom_preview_load_local env cat rom_ptr s)) = disk s"
proof (cases rom_ptr)
  case None
  then show ?thesis by (simp add: rom_preview_load_local_def)
next
  case (Some rom)
  have c: "fetch_in_progress (rom_preview_clear s) = fetch_in_progress s
    \<and> downloads (rom_preview_clear s) = downloads s \<and> disk (rom_preview_clear s) = disk s"
    by (simp add: rom_preview_clear_def)
  from load_local_shape [of env cat rom s] show ?thesis
  proof (elim disjE exE)
    fix img
    assume "rom_preview_load_local env cat (Some rom) s
             = (0, preview_set_ready img rom (rom_preview_clear s))"
    then show ?thesis
      unfolding Some by (simp add: preview_set_ready_frame c)
  next
    fix dirs
    assume "rom_preview_load_local env cat (Some rom) s
             = try_preview_dirs dirs rom (rom_preview_clear s)"
    then show ?thesis
      unfolding Some by (simp add: try_preview_dirs_frame c)
  qed
qed


lemma download_file_frame:
  "fetch_in_progress (snd (download_file env url save_path s)) = fetch_in_progress s
   \<and> downloads (snd (download_file env url save_path s)) = downloads s @ [url]"
  by (simp add: download_file_def Let_def split_def)

lemma fetch_online_shape:
  assumes "rom_station_get (e_station_id rom) cat = Some station"
    and "rom_preview_check_internet env \<noteq> 0"
  shows "\<exists>url1 url2 url3 p s1 d1 d2 d3.
           fetch_in_progress s1 = fetch_in_progress s \<and> downloads s1 = downloads s
         \<and> d1 = download_file env url1 p s1
         \<and> d2 = download_file env url2 p (snd d1)
         \<and> d3 = download_file env url3 p (snd d2)
         \<and> rom_preview_fetch_online env cat (Some rom) s
             = (if fst d1 = 0 then rom_preview_load_local env cat (Some rom) (snd d1)
                else if fst d2 = 0 then rom_preview_load_local env cat (Some rom) (snd d2)
                else if fst d3 = 0 then rom_preview_load_local env cat (Some rom) (snd d3)
                else (- 1, (snd d3)\<lparr>g_current_preview :=
                              (g_current_preview (snd d3))
                                \<lparr>status := PREVIEW_STATUS_NOT_FOUND\<rparr>\<rparr>))"
proof -
  have r: "rom_preview_fetch_online env cat (Some rom) s = 
    (let s1 = s\<lparr>g_current_preview :=
                               (g_current_preview s)\<lparr>status := PREVIEW_STATUS_LOADING\<rparr>\<rparr>;
                      save_dir = snprintf 512
                        (getFullPath_GAMES_DIR env @ ''/'' @ PREVIEW_CACHE_DIR @ ''/''
                           @ st_short_name (stations cat station));
                      save_path = snprintf 1024 (save_dir @ ''/'' @ e_name rom @ ''.png'');
                      libretro_system =
                        get_libretro_system_name (st_short_name (stations cat station));
                      encoded_name = url_encode (e_name rom) 512;
                      url1 = libretro_url libretro_system ''Named_Boxarts'' encoded_name;
                      (r1, s2) = download_file env url1 save_path s1
                  in if r1 = 0 then rom_preview_load_local env cat (Some rom) s2
                     else
                       (let url2 = libretro_url libretro_system ''Named_Snaps'' encoded_name;
                            (r2, s3) = download_file env url2 save_path s2
                        in if r2 = 0 then rom_preview_load_local env cat (Some rom) s3
                           else
                             (let url3 = libretro_url libretro_system ''Named_Titles''
                                           encoded_name;
                                  (r3, s4) = download_file env url3 save_path s3
                              in if r3 = 0 then rom_preview_load_local env cat (Some rom) s4
                                 else (- 1, s4\<lparr>g_current_preview :=
                                          (g_current_preview s4)
                                             \<lparr>status := PREVIEW_STATUS_NOT_FOUND\<rparr>\<rparr>))))"
    unfolding rom_preview_fetch_online_def using assms by (simp only: option.case if_False)
  show ?thesis
    unfolding r Let_def split_def
    by (intro exI conjI; (rule refl)?) simp_all
qed


lemma fetch_online_frame:
  "fetch_in_progress (snd (rom_preview_fetch_online env cat rom_ptr s)) = fetch_in_progress s"
proof (cases rom_ptr)
  case None
  then show ?thesis by (simp add: rom_preview_fetch_online_def)
next
  case (Some rom)
  show ?thesis
  proof (cases "rom_station_get (e_station_id rom) cat")
    case None
    then show ?thesis by (simp add: rom_preview_fetch_online_def Some)
  next
    case st: (Some station)
    show ?thesis
    proof (cases "rom_preview_check_internet env = 0")
      case True
      then show ?thesis by (simp add: rom_preview_fetch_online_def Some st)
    next
      case False
      from fetch_online_shape [OF st False, of s] show ?thesis
        unfolding Some
        by (elim exE conjE) (simp add: load_local_frame download_file_frame)
    qed
  qed
qed

lemma fetch_online_downloads_when_up:
  assumes "rom_station_get (e_station_id rom) cat \<noteq> None"
    and "getaddrinfo env ''github.com'' ''443'' = 0"
  shows "length (downloads (snd (rom_preview_fetch_online env cat (Some rom) s)))
           > length (downloads s)"
proof -
  from assms(1) obtain station where st: "rom_station_get (e_station_id rom) cat = Some station"
    by auto
  have up: "rom_preview_check_internet env \<noteq> 0"
    using assms(2) by (simp add: rom_preview_check_internet_def)
  from fetch_online_shape [OF st up, of s] show ?thesis
    by (elim exE conjE) (simp add: load_local_frame download_file_frame)
qed

text \<open>
  Claim C7. For every entry whose station exists, if the reachability probe fails (the
  name resolution returns an error, so \<^verbatim>\<open>rom_preview_check_internet\<close> is 0), then
  \<^verbatim>\<open>rom_preview_fetch_online\<close> sets the preview status to \<open>no_internet\<close>, returns -1
  and changes nothing else: no download is attempted for any of the three categories and
  no file is touched. (With the probe succeeding at least one download is attempted:
  \<open>fetch_online_downloads_when_up\<close>.)
\<close>

theorem fetch_online_no_internet:
  assumes "rom_station_get (e_station_id rom) cat \<noteq> None"
    and "getaddrinfo env ''github.com'' ''443'' \<noteq> 0"
  shows "rom_preview_check_internet env = 0
       \<and> rom_preview_fetch_online env cat (Some rom) s
           = (- 1, s\<lparr>g_current_preview :=
                       (g_current_preview s)\<lparr>status := PREVIEW_STATUS_NO_INTERNET\<rparr>\<rparr>)
       \<and> rom_preview_get_status (snd (rom_preview_fetch_online env cat (Some rom) s))
           = PREVIEW_STATUS_NO_INTERNET
       \<and> downloads (snd (rom_preview_fetch_online env cat (Some rom) s)) = downloads s
       \<and> disk (snd (rom_preview_fetch_online env cat (Some rom) s)) = disk s"
proof -
  from assms(1) obtain station where st: "rom_station_get (e_station_id rom) cat = Some station"
    by auto
  have down: "rom_preview_check_internet env = 0"
    using assms(2) by (simp add: rom_preview_check_internet_def)
  have r: "rom_preview_fetch_online env cat (Some rom) s
           = (- 1, s\<lparr>g_current_preview :=
                       (g_current_preview s)\<lparr>status := PREVIEW_STATUS_NO_INTERNET\<rparr>\<rparr>)"
    unfolding rom_preview_fetch_online_def by (simp only: option.case st down refl if_True)
  show ?thesis
    unfolding r using down by (simp add: rom_preview_get_status_def)
qed

theorem fetch_online_no_internet_witness:
  "rom_preview_fetch_online ex_pv_env ex_catalog (Some (ex_rom ''Zelda'' 0)) (pv_startup (\<lambda>p. None))
     = (- 1, (pv_startup (\<lambda>p. None))\<lparr>g_current_preview :=
                zero_preview\<lparr>status := PREVIEW_STATUS_NO_INTERNET\<rparr>\<rparr>)
   \<and> downloads (snd (rom_preview_fetch_online ex_pv_env ex_catalog (Some (ex_rom ''Zelda'' 0))
        (pv_startup (\<lambda>p. None)))) = []"
proof -
  have st: "rom_station_get (e_station_id (ex_rom ''Zelda'' 0)) ex_catalog \<noteq> None"
    by (simp add: rom_station_get_def ex_defs ROM_MAX_STATIONS_def)
  have net: "getaddrinfo ex_pv_env ''github.com'' ''443'' \<noteq> 0"
    by (simp add: ex_pv_env_def)
  from fetch_online_no_internet [OF st net, of "pv_startup (\<lambda>p. None)"]
  show ?thesis by (simp add: pv_startup_def)
qed

section \<open>Polling the asynchronous fetch\<close>

lemma before_any_async_idle:
  "before_any_async env s \<Longrightarrow> \<not> fetch_in_progress s"
  by (induction rule: before_any_async.induct)
     (simp_all add: pv_startup_def rom_preview_clear_def load_local_frame fetch_online_frame)

text \<open>
  Claim C10. \<^verbatim>\<open>rom_preview_fetch_poll\<close> returns 1 (fetch complete) at program start and
  in every state reached from there without a call of \<^verbatim>\<open>rom_preview_fetch_async\<close>;
  and when \<^verbatim>\<open>pthread_create\<close> fails, \<^verbatim>\<open>rom_preview_fetch_async\<close> returns -1 and the
  poll after it returns 1, whatever the state before the call.
\<close>

theorem fetch_poll_without_task:
  "rom_preview_fetch_poll (pv_startup d) = 1
   \<and> (before_any_async env s \<longrightarrow> rom_preview_fetch_poll s = 1)
   \<and> (\<not> pthread_create_ok env \<longrightarrow>
        fst (rom_preview_fetch_async env cat rom_ptr s1) = - 1
        \<and> rom_preview_fetch_poll (snd (rom_preview_fetch_async env cat rom_ptr s1)) = 1)"
proof -
  have a: "rom_preview_fetch_poll (pv_startup d) = 1"
    by (simp add: rom_preview_fetch_poll_def pv_startup_def)
  have b: "before_any_async env s \<longrightarrow> rom_preview_fetch_poll s = 1"
    using before_any_async_idle [of env s] by (simp add: rom_preview_fetch_poll_def)
  have c: "\<not> pthread_create_ok env \<longrightarrow>
        fst (rom_preview_fetch_async env cat rom_ptr s1) = - 1
        \<and> rom_preview_fetch_poll (snd (rom_preview_fetch_async env cat rom_ptr s1)) = 1"
    by (simp add: rom_preview_fetch_async_def rom_preview_fetch_poll_def Let_def)
  from a b c show ?thesis by blast
qed

theorem fetch_poll_without_task_witness:
  "rom_preview_fetch_poll
     (snd (rom_preview_load_local ex_pv_env ex_catalog (Some (ex_rom ''Zelda'' 0))
        (pv_startup (\<lambda>p. None)))) = 1
   \<and> rom_preview_fetch_poll ex_fetching = 0
   \<and> fst (rom_preview_fetch_async ex_pv_env ex_catalog (Some (ex_rom ''Zelda'' 0)) ex_fetching) = - 1
   \<and> rom_preview_fetch_poll
       (snd (rom_preview_fetch_async ex_pv_env ex_catalog (Some (ex_rom ''Zelda'' 0)) ex_fetching)) = 1"
proof -
  let ?s = "snd (rom_preview_load_local ex_pv_env ex_catalog (Some (ex_rom ''Zelda'' 0))
        (pv_startup (\<lambda>p. None)))"
  have r: "before_any_async ex_pv_env ?s"
    by (intro before_any_async.load_local before_any_async.startup)
  have c: "\<not> pthread_create_ok ex_pv_env"
    by (simp add: ex_pv_env_def)
  have b: "rom_preview_fetch_poll ex_fetching = 0"
    by (simp add: rom_preview_fetch_poll_def ex_fetching_def)
  note th = fetch_poll_without_task [of "\<lambda>p. None" ex_pv_env ?s ex_catalog
      "Some (ex_rom ''Zelda'' 0)" ex_fetching]
  from th r c b show ?thesis by blast
qed


section \<open>Scanning all stations\<close>

lemma same_registry_refl [simp]: "same_registry s s"
  by (simp add: same_registry_def)

lemma same_registry_trans: "same_registry s t \<Longrightarrow> same_registry t u \<Longrightarrow> same_registry s u"
  by (simp add: same_registry_def)

lemma add_rom_entry_registry:
  "same_registry s (snd (add_rom_entry env station path filename sz date s))"
  by (simp add: add_rom_entry_def same_registry_def Let_def)

lemma scan_registry:
  "same_registry s (scan_directory_recursive env station dir_path depth s)"
  "same_registry s (scan_readdir env station dir_path depth names s)"
proof (induction env station dir_path depth s and env station dir_path depth names s
    rule: scan_directory_recursive_scan_readdir.induct)
  case (1 env station dir_path depth s)
  then show ?case
    by (subst scan_directory_recursive.simps) (auto split: option.splits)
next
  case (2 env station dir_path depth s)
  show ?case by (simp add: scan_readdir.simps)
next
  case (3 env station dir_path depth d_name rest s)
  show ?case
  proof (cases "scan_cancel_flag s")
    case True
    then show ?thesis by (subst scan_readdir.simps) simp
  next
    case nc: False
    show ?thesis
    proof (cases "take 1 d_name = ''.''")
      case True
      with nc "3.IH"(1) show ?thesis by (subst scan_readdir.simps) simp
    next
      case nd: False
      define full_path where "full_path = snprintf ROM_PATH_LEN (dir_path @ ''/'' @ d_name)"
      show ?thesis
      proof (cases "stat env full_path")
        case None
        with nc nd "3.IH"(2) [OF nc nd full_path_def None] show ?thesis
          by (subst scan_readdir.simps) (simp add: full_path_def)
      next
        case (Some st)
        note ih = "3.IH"(3-7) [OF nc nd full_path_def Some]
        show ?thesis
        proof (cases "S_ISDIR st")
          case True
          from same_registry_trans [OF ih(1) [OF True] ih(2) [OF True]] nc nd Some True
          show ?thesis
            by (subst scan_readdir.simps) (simp add: full_path_def)
        next
          case nd2: False
          show ?thesis
          proof (cases "S_ISREG st")
            case False
            with ih(5) [OF nd2 False] nc nd Some nd2 show ?thesis
              by (subst scan_readdir.simps) (simp add: full_path_def)
          next
            case reg: True
            show ?thesis
            proof (cases "match_extension d_name (st_extensions (stations s station))")
              case True
              from same_registry_trans [OF add_rom_entry_registry ih(3) [OF nd2 reg True]]
                nc nd Some nd2 reg True
              show ?thesis
                by (subst scan_readdir.simps) (simp add: full_path_def)
            next
              case False
              with ih(4) [OF nd2 reg False] nc nd Some nd2 reg show ?thesis
                by (subst scan_readdir.simps) (simp add: full_path_def)
            qed
          qed
        qed
      qed
    qed
  qed
qed


lemma scan_storage_dirs_registry:
  "same_registry s (scan_storage_dirs env station ds s)"
proof (induction ds arbitrary: s)
  case Nil
  show ?case by simp
next
  case (Cons d ds)
  show ?case
  proof (cases "scan_cancel_flag s")
    case True
    then show ?thesis by simp
  next
    case False
    then show ?thesis
      using same_registry_trans [OF scan_registry(1) Cons.IH] Cons.IH
      by (simp add: Let_def)
  qed
qed

lemma rebuild_registry:
  "same_registry s (rebuild_filtered_list env s)"
  by (simp add: same_registry_def)

lemma rom_scan_station_registry:
  assumes "\<not> scan_cancel_flag s"
  shows "same_registry s (snd (rom_scan_station env sid s))"
proof (cases "rom_station_get sid s")
  case None
  then show ?thesis by (simp add: rom_scan_station_def)
next
  case (Some station)
  obtain w rs where p: "purge_loop sid (rom_count s) 0 0 (roms s) = (w, rs)"
    by (cases "purge_loop sid (rom_count s) 0 0 (roms s)")
  define s3 where "s3 = s\<lparr>scan_cancel_flag := False, scanning := True,
       scan_status := snprintf 256 (''Scanning '' @ st_short_name (stations s station) @ ''...''),
       roms := rs, rom_count := w,
       stations := (stations s)(station := (stations s station)\<lparr>st_rom_count := 0\<rparr>)\<rparr>"
  define s4 where "s4 = scan_storage_dirs env station [games_dir env, root_dir env] s3"
  have r: "snd (rom_scan_station env sid s) = rebuild_filtered_list env (s4\<lparr>scanning := False\<rparr>)"
    unfolding rom_scan_station_def Some option.case Let_def s4_def s3_def
    by (simp add: p)
  have a: "same_registry s s3"
    using assms unfolding same_registry_def s3_def by simp
  have b: "same_registry s3 s4"
    unfolding s4_def by (rule scan_storage_dirs_registry)
  have c: "same_registry s4 (rebuild_filtered_list env (s4\<lparr>scanning := False\<rparr>))"
    unfolding same_registry_def by simp
  show ?thesis
    unfolding r by (rule same_registry_trans [OF same_registry_trans [OF a b] c])
qed

lemma enabled_slots_same:
  "same_registry s s' \<Longrightarrow> enabled_slots i s' = enabled_slots i s"
  by (simp add: same_registry_def enabled_slots_def)

lemma scan_all_loop_progress:
  assumes "\<not> scan_cancel_flag s" and "station_count s \<noteq> 0"
  shows "\<exists>t' s'. scan_all_loop env i t p s
           = Some (t', p @ map (\<lambda>j. (word_of_nat j * 100) div station_count s) (enabled_slots i s), s')
         \<and> same_registry s s'"
  using assms
proof (induction env i t p s rule: scan_all_loop.induct)
  case (1 env i t p s)
  show ?case
  proof (cases "i < ROM_MAX_STATIONS")
    case False
    then have "enabled_slots i s = []"
      by (simp add: enabled_slots_def)
    with False show ?thesis
      by (subst scan_all_loop.simps) simp
  next
    case lt: True
    then have upt: "[i..<ROM_MAX_STATIONS] = i # [i + 1..<ROM_MAX_STATIONS]"
      by (simp add: upt_conv_Cons)
    have go: "i < ROM_MAX_STATIONS \<and> \<not> scan_cancel_flag s"
      using lt "1.prems" by simp
    show ?thesis
    proof (cases "st_enabled (stations s i)")
      case False
      have en: "enabled_slots i s = enabled_slots (i + 1) s"
        using False by (simp add: enabled_slots_def upt)
      have "scan_all_loop env i t p s = scan_all_loop env (i + 1) t p s"
        using go False by (subst scan_all_loop.simps) simp
      with "1.IH"(2) [OF go False "1.prems"] show ?thesis
        by (simp add: en)
    next
      case True
      define s1 where "s1 = s\<lparr>scan_progress := (word_of_nat i * 100) div station_count s\<rparr>"
      obtain n s2 where sc: "(n, s2) = rom_scan_station env (word_of_nat i) s1"
        by (cases "rom_scan_station env (word_of_nat i) s1") auto
      have nz: "\<not> station_count s = 0"
        using "1.prems" by simp
      have reg1: "same_registry s s1"
        by (simp add: same_registry_def s1_def)
      have "same_registry s1 (snd (rom_scan_station env (word_of_nat i) s1))"
        using "1.prems" by (intro rom_scan_station_registry) (simp add: s1_def)
      then have reg2: "same_registry s1 s2"
        using sc by (metis snd_conv)
      have reg: "same_registry s s2"
        by (rule same_registry_trans [OF reg1 reg2])
      then have p2: "\<not> scan_cancel_flag s2" "station_count s2 \<noteq> 0" "station_count s2 = station_count s"
        using "1.prems" by (simp_all add: same_registry_def)
      have en: "enabled_slots i s = i # enabled_slots (i + 1) s2"
        using True by (simp add: enabled_slots_def upt enabled_slots_same [OF reg, unfolded enabled_slots_def])
      have step: "scan_all_loop env i t p s
                    = scan_all_loop env (i + 1) (t + n) (p @ [scan_progress s1]) s2"
        using go True nz sc [symmetric]
        by (subst scan_all_loop.simps) (simp add: Let_def s1_def)
      from "1.IH"(1) [OF go True nz s1_def refl sc p2(1,2)]
      obtain t' s' where r: "scan_all_loop env (i + 1) (t + n) (p @ [scan_progress s1]) s2
           = Some (t', (p @ [scan_progress s1])
                @ map (\<lambda>j. (word_of_nat j * 100) div station_count s2) (enabled_slots (i + 1) s2), s')"
        and reg3: "same_registry s2 s'"
        by blast
      have "scan_all_loop env i t p s
           = Some (t', p @ map (\<lambda>j. (word_of_nat j * 100) div station_count s) (enabled_slots i s), s')"
        unfolding step r en p2(3) by (simp add: s1_def)
      moreover have "same_registry s s'"
        by (rule same_registry_trans [OF reg reg3])
      ultimately show ?thesis by blast
    qed
  qed
qed

lemma rom_scan_all_progress:
  assumes "station_count s \<noteq> 0"
  shows "\<exists>total s'. rom_scan_all env s
           = Some (total, map (\<lambda>j. (word_of_nat j * 100) div station_count s) (enabled_slots 0 s), s')"
proof -
  let ?s0 = "s\<lparr>scan_cancel_flag := False, scanning := True\<rparr>"
  have "\<not> scan_cancel_flag ?s0" and "station_count ?s0 \<noteq> 0"
    using assms by simp_all
  from scan_all_loop_progress [OF this, of env 0 0 "[]"]
  obtain t' s' where "scan_all_loop env 0 0 [] ?s0
           = Some (t', map (\<lambda>j. (word_of_nat j * 100) div station_count s) (enabled_slots 0 s), s')"
    by (auto simp: enabled_slots_def)
  then show ?thesis
    by (simp add: rom_scan_all_def)
qed

lemma ex_sparse_enabled:
  "st_enabled (stations ex_sparse j) \<longleftrightarrow> j = 1"
  by (simp add: ex_sparse_def rom_station_remove_def Let_def split_def rom_catalog_save_def
      rebuild_filtered_list_closed ex_defs ROM_MAX_STATIONS_def)

lemma ex_sparse_count: "station_count ex_sparse = 1"
  by (simp add: ex_sparse_def rom_station_remove_def Let_def split_def rom_catalog_save_def
      rebuild_filtered_list_closed ex_defs ROM_MAX_STATIONS_def)

lemma ex_sparse_slots: "enabled_slots 0 ex_sparse = [1]"
proof -
  have "filter (\<lambda>j. j = 1) [0..<32] = [1::nat]"
    by (simp add: upt_conv_Cons)
  then show ?thesis
    by (simp add: enabled_slots_def ex_sparse_enabled ROM_MAX_STATIONS_def)
qed

lemma ex_last_slot_slots: "enabled_slots 0 ex_last_slot = [31]"
proof -
  have "filter (\<lambda>j. j = 31) [0..<32] = [31::nat]"
    by (simp add: upt_conv_Cons)
  moreover have "st_enabled (stations ex_last_slot j) \<longleftrightarrow> j = 31" for j
    by (simp add: ex_last_slot_def cat_startup_def zero_station_def)
  ultimately show ?thesis
    by (simp add: enabled_slots_def ROM_MAX_STATIONS_def)
qed

lemma ex_last_slot_count: "station_count ex_last_slot = 1"
  by (simp add: ex_last_slot_def cat_startup_def)

text \<open>
  Claim C2 says that the progress written before each station's scan is the number of
  stations completed so far, divided by the number of enabled stations, as a percentage,
  and that the sum of the per-station counts is returned. \<^verbatim>\<open>rom_scan_all\<close> computes the
  progress from the slot index, not from the number of stations completed
  (\<open>rom_scan_all_progress\<close>). In the example slot 0 is free and slot 1 holds the only
  station: no station has been completed when it is scanned, and the progress written is
  100, not 0. With the only station in slot 31 the progress written is 3100, outside the
  range 0 to 100 that \<^verbatim>\<open>rom_catalog.h\<close> documents for \<open>scan_progress\<close>.
\<close>

theorem scan_progress_follows_slot_index:
  "enabled_slots 0 ex_sparse = [1]
   \<and> station_count ex_sparse = 1
   \<and> (\<exists>total s'. rom_scan_all ex_env ex_sparse = Some (total, [100], s'))
   \<and> enabled_slots 0 ex_last_slot = [31]
   \<and> station_count ex_last_slot = 1
   \<and> (\<exists>total s'. rom_scan_all ex_env ex_last_slot = Some (total, [3100], s'))"
proof -
  have nz: "station_count ex_sparse \<noteq> 0"
    by (simp add: ex_sparse_count)
  have nz2: "station_count ex_last_slot \<noteq> 0"
    by (simp add: ex_last_slot_count)
  from rom_scan_all_progress [OF nz, of ex_env] ex_sparse_slots ex_sparse_count
    rom_scan_all_progress [OF nz2, of ex_env] ex_last_slot_slots ex_last_slot_count
  show ?thesis by simp
qed

section \<open>Updating a station\<close>

lemma rom_station_update_result:
  "fst (rom_station_update sid st s) = (if unat sid < ROM_MAX_STATIONS then 0 else - 1)"
  by (simp add: rom_station_update_def)

lemma rom_station_update_out_of_range:
  "\<not> unat sid < ROM_MAX_STATIONS \<Longrightarrow> rom_station_update sid st s = (- 1, s)"
  by (simp add: rom_station_update_def)

lemma scan_all_loop_div_zero:
  assumes "\<not> scan_cancel_flag s" and "station_count s = 0" and "enabled_slots i s \<noteq> []"
  shows "scan_all_loop env i t p s = None"
  using assms
proof (induction env i t p s rule: scan_all_loop.induct)
  case (1 env i t p s)
  have lt: "i < ROM_MAX_STATIONS"
    using "1.prems"(3) by (cases "i < ROM_MAX_STATIONS") (simp_all add: enabled_slots_def)
  then have upt: "[i..<ROM_MAX_STATIONS] = i # [i + 1..<ROM_MAX_STATIONS]"
    by (simp add: upt_conv_Cons)
  have go: "i < ROM_MAX_STATIONS \<and> \<not> scan_cancel_flag s"
    using lt "1.prems" by simp
  show ?case
  proof (cases "st_enabled (stations s i)")
    case True
    with go "1.prems"(2) show ?thesis
      by (subst scan_all_loop.simps) simp
  next
    case False
    then have "enabled_slots (i + 1) s \<noteq> []"
      using "1.prems"(3) by (simp add: enabled_slots_def upt)
    from "1.IH"(2) [OF go False "1.prems"(1,2) this]
    show ?thesis
      using go False by (subst scan_all_loop.simps) simp
  qed
qed

lemma rom_scan_all_div_zero:
  assumes "station_count s = 0" and "enabled_slots 0 s \<noteq> []"
  shows "rom_scan_all env s = None"
proof -
  let ?s0 = "s\<lparr>scan_cancel_flag := False, scanning := True\<rparr>"
  have "scan_all_loop env 0 0 [] ?s0 = None"
    using assms by (intro scan_all_loop_div_zero) (simp_all add: enabled_slots_def)
  then show ?thesis by (simp add: rom_scan_all_def)
qed

text \<open>
  Claim C8 says that \<^verbatim>\<open>update\<close> returns Ok exactly when the station exists (an enabled
  slot) and NotFound otherwise, the registry then being unchanged. \<^verbatim>\<open>rom_station_update\<close>
  only checks the range of the number (\<open>rom_station_update_result\<close>): on the catalog at
  program start, where slot 3 is not enabled and \<^verbatim>\<open>rom_station_get\<close> finds no station,
  updating station 3 returns 0 and writes the slot, while \<open>station_count\<close> stays 0.
  A scan of all stations then divides by that zero.
\<close>

theorem rom_station_update_disabled_slot:
  "rom_station_get 3 cat_startup = None
   \<and> fst (rom_station_update 3 ex_station cat_startup) = 0
   \<and> stations (snd (rom_station_update 3 ex_station cat_startup)) 3 = ex_station
   \<and> stations (snd (rom_station_update 3 ex_station cat_startup)) \<noteq> stations cat_startup
   \<and> station_count (snd (rom_station_update 3 ex_station cat_startup)) = 0
   \<and> rom_scan_all ex_env (snd (rom_station_update 3 ex_station cat_startup)) = None"
proof -
  let ?s = "snd (rom_station_update 3 ex_station cat_startup)"
  have "stations ?s 3 \<noteq> stations cat_startup 3"
    by (simp add: rom_station_update_def rom_catalog_save_def cat_startup_def ex_station_def
      zero_station_def ROM_MAX_STATIONS_def)
  then have ne: "stations ?s \<noteq> stations cat_startup"
    by metis
  have en: "st_enabled (stations ?s 3)"
    by (simp add: rom_station_update_def rom_catalog_save_def ex_station_def ROM_MAX_STATIONS_def)
  have "3 \<in> set (enabled_slots 0 ?s)"
    using en by (simp add: enabled_slots_def ROM_MAX_STATIONS_def)
  then have slots: "enabled_slots 0 ?s \<noteq> []"
    by auto
  have cnt: "station_count ?s = 0"
    by (simp add: rom_station_update_def rom_catalog_save_def cat_startup_def ROM_MAX_STATIONS_def)
  have crash: "rom_scan_all ex_env ?s = None"
    by (rule rom_scan_all_div_zero [OF cnt slots])
  from ne crash show ?thesis
    by (simp add: rom_station_update_def rom_station_get_def rom_catalog_save_def cat_startup_def
      zero_station_def ROM_MAX_STATIONS_def)
qed


end
